theory Spec2Isabelle
  imports Complex_Main "HOL-Library.Sublist"
begin

section \<open>Python values used by the pipeline\<close>

text \<open>
  A Python \<open>str\<close> is a sequence of Unicode code points and \<open>len\<close> counts code points,
  so a string is a list of code point numbers. ASCII literals are written through \<open>asc\<close>;
  the Korean literals of the source are given by their code points.
\<close>

type_synonym pystr = "nat list"

definition asc :: "string \<Rightarrow> pystr" where
  "asc s = map of_char s"

text \<open>The exceptions the modelled code can raise; a failing external service carries its message.\<close>

datatype py_error =
    PyValueError
  | PyTypeError
  | PyAttributeError
  | PyZeroDivisionError
  | PyOverflowError
  | ServiceError pystr

text \<open>\<open>str.isspace\<close> for one code point: the Unicode white space characters.\<close>

definition py_isspace :: "nat \<Rightarrow> bool" where
  "py_isspace c \<longleftrightarrow>
     (9 \<le> c \<and> c \<le> 13) \<or> (28 \<le> c \<and> c \<le> 32) \<or> c = 133 \<or> c = 160 \<or> c = 5760 \<or>
     (8192 \<le> c \<and> c \<le> 8202) \<or> c = 8232 \<or> c = 8233 \<or> c = 8239 \<or> c = 8287 \<or> c = 12288"

text \<open>\<open>str.strip()\<close>: drop leading and trailing white space.\<close>

definition lstrip :: "pystr \<Rightarrow> pystr" where
  "lstrip s = dropWhile py_isspace s"

definition rstrip :: "pystr \<Rightarrow> pystr" where
  "rstrip s = rev (dropWhile py_isspace (rev s))"

definition strip :: "pystr \<Rightarrow> pystr" where
  "strip s = rstrip (lstrip s)"

text \<open>\<open>str(n)\<close> for an \<open>int\<close>: decimal digits, with a leading minus sign when negative.\<close>

fun digits_of :: "nat \<Rightarrow> pystr" where
  "digits_of n = (if n < 10 then [48 + n] else digits_of (n div 10) @ [48 + n mod 10])"

declare digits_of.simps [simp del]

definition str_int :: "int \<Rightarrow> pystr" where
  "str_int i = (if i < 0 then 45 # digits_of (nat (- i)) else digits_of (nat i))"

text \<open>\<open>sep.join(parts)\<close>.\<close>

fun join :: "pystr \<Rightarrow> pystr list \<Rightarrow> pystr" where
  "join sep [] = []"
| "join sep [p] = p"
| "join sep (p # q # ps) = p @ sep @ join sep (q # ps)"

text \<open>
  The slice \<open>xs[a:b]\<close> with Python's treatment of negative and out-of-range bounds, and
  \<open>xs[:b]\<close>.
\<close>

definition slice_bound :: "nat \<Rightarrow> int \<Rightarrow> nat" where
  "slice_bound n a = (if a < 0 then nat (int n + a) else min n (nat a))"

definition py_slice :: "'a list \<Rightarrow> int \<Rightarrow> int \<Rightarrow> 'a list" where
  "py_slice xs a b =
     (let lo = slice_bound (length xs) a; hi = slice_bound (length xs) b
      in take (hi - lo) (drop lo xs))"

definition py_slice_to :: "'a list \<Rightarrow> int \<Rightarrow> 'a list" where
  "py_slice_to xs b = take (slice_bound (length xs) b) xs"

text \<open>
  \<open>range(0, stop, step)\<close> for \<open>stop \<ge> 0\<close>: a zero step raises \<open>ValueError\<close>, a negative
  step gives the empty range, and a positive step gives the
  \<open>(stop + step - 1) // step\<close> multiples of the step below \<open>stop\<close>.
\<close>

definition py_range0 :: "int \<Rightarrow> int \<Rightarrow> py_error + int list" where
  "py_range0 stop step =
     (if step = 0 then Inl PyValueError
      else if step < 0 then Inr []
      else Inr (map (\<lambda>j. int j * step) [0 ..< nat ((stop + step - 1) div step)]))"

text \<open>
  A Python number is an \<open>int\<close> of any size or a \<open>float\<close>. A finite float is modelled
  by the rational it denotes and float arithmetic as exact. \<open>num_value\<close> is the value
  the comparisons \<open>>=\<close> and \<open><\<close> use: Python compares an int with a float exactly.
\<close>

datatype pynum = PyInt int | PyFloat rat

definition num_value :: "pynum \<Rightarrow> rat" where
  "num_value x = (case x of PyInt i \<Rightarrow> of_int i | PyFloat q \<Rightarrow> q)"

text \<open>
  Arithmetic of a number with a float converts an int operand to a float first. The
  conversion raises \<open>OverflowError\<close> when the int rounds to a magnitude above the largest
  float, which is from \<open>2^1024 - 2^970\<close> on. \<open>x * k\<close> for an int \<open>k\<close> stays an int when
  \<open>x\<close> is one.
\<close>

definition float_limit :: int where
  "float_limit = 2 ^ 1024 - 2 ^ 970"

definition to_float :: "pynum \<Rightarrow> py_error + rat" where
  "to_float x =
     (case x of
        PyFloat q \<Rightarrow> Inr q
      | PyInt i \<Rightarrow> if \<bar>i\<bar> \<ge> float_limit then Inl PyOverflowError else Inr (of_int i))"

definition times_int :: "pynum \<Rightarrow> int \<Rightarrow> pynum" where
  "times_int x k = (case x of PyInt i \<Rightarrow> PyInt (i * k) | PyFloat q \<Rightarrow> PyFloat (q * of_int k))"

text \<open>
  A decoded JSON value, as \<open>json.loads\<close> returns it; an object is its list of items.
  \<open>JNonFinite\<close> stands for the floats \<open>nan\<close>, \<open>inf\<close> and \<open>-inf\<close>, which \<open>json.loads\<close>
  returns for \<open>NaN\<close>, \<open>Infinity\<close>, \<open>-Infinity\<close> and for a literal beyond the float range.
\<close>

datatype json =
    JNull
  | JBool bool
  | JNum pynum
  | JNonFinite
  | JStr pystr
  | JArr "json list"
  | JObj "(pystr \<times> json) list"

section \<open>Criterion results and the evaluation runner (evaluation/runner.py)\<close>

text \<open>
  \<open>EvaluationResult\<close> of agents/base_agent.py. The score is a Python number: the int or
  float of the judgment response, the int \<open>0\<close> of a failure result, the float \<open>4.0\<close> of the
  mock agent. The fields filled from the judgment response by \<open>data.get\<close> hold whatever
  JSON value the response carried.
\<close>

record EvaluationResult =
  criterion :: pystr
  score :: pynum
  grade :: pystr
  evidence :: json
  comments :: json
  pass_status :: bool
  sub_scores :: "json option"

record Summary =
  overall_grade :: pystr
  score_out_of_100 :: rat
  strong_points :: "pystr list"
  weak_points :: "pystr list"
  recommendations :: "pystr list"

record StageOne =
  novelty :: EvaluationResult
  progressiveness :: EvaluationResult
  s1_total_score :: rat
  s1_pass :: bool

record StageTwo =
  field_applicability :: EvaluationResult
  s2_total_score :: pynum
  s2_pass :: bool

record FullEvaluationResult =
  fe_tech_id :: pystr
  stage_1 :: StageOne
  stage_2 :: StageTwo
  overall_score :: rat
  overall_pass :: bool
  summary :: Summary

text \<open>
  The runner holds its three agents; each agent is its \<open>evaluate\<close> method, which returns a
  result or raises. \<open>format_json\<close> is Python's \<open>str()\<close> of a decoded JSON value, used
  only where an f-string formats a non-string.
\<close>

record EvaluationRunner =
  novelty_agent :: "pystr \<Rightarrow> py_error + EvaluationResult"
  progress_agent :: "pystr \<Rightarrow> py_error + EvaluationResult"
  field_agent :: "pystr \<Rightarrow> py_error + EvaluationResult"
  format_json :: "json \<Rightarrow> pystr"

definition run_stage_1 ::
  "EvaluationRunner \<Rightarrow> pystr \<Rightarrow> py_error + (EvaluationResult \<times> EvaluationResult)" where
  "run_stage_1 r tid =
     (case novelty_agent r tid of
        Inl e \<Rightarrow> Inl e
      | Inr n \<Rightarrow>
          (case progress_agent r tid of
             Inl e \<Rightarrow> Inl e
           | Inr p \<Rightarrow> Inr (n, p)))"

definition run_stage_2 :: "EvaluationRunner \<Rightarrow> pystr \<Rightarrow> py_error + EvaluationResult" where
  "run_stage_2 r tid = field_agent r tid"

text \<open>\<open>result.comments[:100]\<close> inside the f-string of a recommendation.\<close>

definition comments_head :: "(json \<Rightarrow> pystr) \<Rightarrow> json \<Rightarrow> py_error + pystr" where
  "comments_head fmt c =
     (case c of
        JStr s \<Rightarrow> Inr (take 100 s)
      | JArr xs \<Rightarrow> Inr (fmt (JArr (take 100 xs)))
      | _ \<Rightarrow> Inl PyTypeError)"

definition point_line :: "EvaluationResult \<Rightarrow> pystr" where
  "point_line res = criterion res @ asc '': '' @ grade res"

definition needs_work :: pystr where
  "needs_work = [32, 48372, 50756, 32, 54596, 50836, 58, 32]"

fun recommendation_lines ::
  "(json \<Rightarrow> pystr) \<Rightarrow> EvaluationResult list \<Rightarrow> py_error + pystr list" where
  "recommendation_lines fmt [] = Inr []"
| "recommendation_lines fmt (res # rest) =
     (if \<not> pass_status res then
        (case comments_head fmt (comments res) of
           Inl e \<Rightarrow> Inl e
         | Inr c \<Rightarrow>
             (case recommendation_lines fmt rest of
                Inl e \<Rightarrow> Inl e
              | Inr ls \<Rightarrow> Inr ((criterion res @ needs_work @ c) # ls)))
      else recommendation_lines fmt rest)"

definition grade_passed :: pystr where
  "grade_passed = [53685, 44284]"

definition grade_not_passed :: pystr where
  "grade_not_passed = [48120, 53685, 44284]"

definition generate_summary ::
  "(json \<Rightarrow> pystr) \<Rightarrow> EvaluationResult \<times> EvaluationResult \<Rightarrow> EvaluationResult \<Rightarrow> rat \<Rightarrow> bool
     \<Rightarrow> py_error + Summary" where
  "generate_summary fmt stage1 stage2 overall passed =
     (let merged = [fst stage1, snd stage1, stage2];
          strong = map point_line (filter (\<lambda>res. num_value (score res) \<ge> 4) merged);
          weak = map point_line (filter (\<lambda>res. num_value (score res) < 3) merged)
      in case recommendation_lines fmt merged of
           Inl e \<Rightarrow> Inl e
         | Inr recs \<Rightarrow>
             Inr \<lparr> overall_grade = (if passed then grade_passed else grade_not_passed),
                   score_out_of_100 = overall,
                   strong_points = strong,
                   weak_points = weak,
                   recommendations = recs \<rparr>)"

text \<open>
  \<open>run_full_evaluation\<close>. \<open>score * 0.5\<close> converts an int score to a float, and so does the
  sum of the float \<open>stage_1_score\<close> and \<open>stage_2_score\<close>, which is an int when the field
  score is one; either conversion can raise \<open>OverflowError\<close>. (\<open>_print_result\<close> then only
  formats these numbers: its \<open>.1f\<close> of \<open>stage_2_score\<close> repeats the conversion that the
  sum has already made.)
\<close>

definition run_full_evaluation ::
  "EvaluationRunner \<Rightarrow> pystr \<Rightarrow> py_error + FullEvaluationResult" where
  "run_full_evaluation r tid =
     (case run_stage_1 r tid of
        Inl e \<Rightarrow> Inl e
      | Inr stage_1_results \<Rightarrow>
          (case run_stage_2 r tid of
             Inl e \<Rightarrow> Inl e
           | Inr f \<Rightarrow>
               (let n = fst stage_1_results;
                    p = snd stage_1_results
                in case to_float (score n) of
                     Inl e \<Rightarrow> Inl e
                   | Inr novelty_score \<Rightarrow>
                       (case to_float (score p) of
                          Inl e \<Rightarrow> Inl e
                        | Inr progress_score \<Rightarrow>
                            (let stage_1_score =
                                   (novelty_score * (1 / 2) + progress_score * (1 / 2)) * 10;
                                 stage_2_score = times_int (score f) 10
                             in case to_float stage_2_score of
                                  Inl e \<Rightarrow> Inl e
                                | Inr stage_2_float \<Rightarrow>
                                    (let overall = stage_1_score + stage_2_float;
                                         passed = (pass_status n \<and> pass_status p \<and>
                                                   pass_status f \<and> overall \<ge> 70)
                                     in case generate_summary (format_json r) stage_1_results f
                                               overall passed of
                                          Inl e \<Rightarrow> Inl e
                                        | Inr s \<Rightarrow>
                                            Inr \<lparr> fe_tech_id = tid,
                                                  stage_1 =
                                                    \<lparr> novelty = n, progressiveness = p,
                                                      s1_total_score = stage_1_score,
                                                      s1_pass = (pass_status n \<and> pass_status p) \<rparr>,
                                                  stage_2 =
                                                    \<lparr> field_applicability = f,
                                                      s2_total_score = stage_2_score,
                                                      s2_pass = pass_status f \<rparr>,
                                                  overall_score = overall,
                                                  overall_pass = passed,
                                                  summary = s \<rparr>))))))"

text \<open>
  \<open>MockEvaluationAgent.evaluate\<close> of agents/base_agent.py, the agent of a runner created
  with \<open>use_aws=False\<close>.
\<close>

definition mock_evaluate :: "pystr \<Rightarrow> pystr \<Rightarrow> py_error + EvaluationResult" where
  "mock_evaluate name tid =
     Inr \<lparr> criterion = name, score = PyFloat 4, grade = [50577, 54840],
           evidence = JArr [JObj [(asc ''type'', JStr (asc ''mock'')),
                                  (asc ''content'', JStr [53580, 49828, 53944, 32, 44540, 44144])]],
           comments = JStr [53580, 49828, 53944, 32, 54217, 44032, 32, 51032, 44204],
           pass_status = True, sub_scores = None \<rparr>"

definition mock_runner :: EvaluationRunner where
  "mock_runner =
     \<lparr> novelty_agent = mock_evaluate [49888, 44508, 49457],
       progress_agent = mock_evaluate [51652, 48372, 49457],
       field_agent = mock_evaluate [54788, 51109, 51201, 50857, 49457],
       format_json = (\<lambda>_. []) \<rparr>"

section \<open>Chunks and the chunker (preprocessing/chunker.py)\<close>

record AWSConfig =
  chunk_size :: int
  chunk_overlap :: int
  retrieval_k :: int

definition default_config :: AWSConfig where
  "default_config = \<lparr> chunk_size = 1000, chunk_overlap = 200, retrieval_k = 10 \<rparr>"

record Page =
  page_number :: int
  full_text :: pystr

text \<open>A table-of-contents entry; \<open>None\<close> is a key the entry does not have.\<close>

record TocItem =
  toc_title :: "pystr option"
  toc_page :: "int option"

record Document =
  meta_tech_id :: "pystr option"
  meta_filename :: "pystr option"
  pages :: "Page list"
  table_of_contents :: "TocItem list"

record DocumentChunk =
  tech_id :: pystr
  file_name :: pystr
  chunk_index :: nat
  content :: pystr
  page_numbers :: "int list"
  chunk_section :: "pystr option"
  token_count :: "int option"

text \<open>\<open>DocumentChunker.__init__\<close> copies the two sizes from the configuration and checks nothing.\<close>

record DocumentChunker =
  dc_chunk_size :: int
  dc_chunk_overlap :: int

definition DocumentChunker_init :: "AWSConfig \<Rightarrow> DocumentChunker" where
  "DocumentChunker_init cfg =
     \<lparr> dc_chunk_size = chunk_size cfg, dc_chunk_overlap = chunk_overlap cfg \<rparr>"

definition unknown :: pystr where
  "unknown = asc ''unknown''"

text \<open>\<open>_get_pages_in_range\<close>: the pages whose start offset lies in \<open>[start, end)\<close>, else \<open>[1]\<close>.\<close>

fun pages_in_range_loop :: "(int \<times> int) list \<Rightarrow> int \<Rightarrow> int \<Rightarrow> int list \<Rightarrow> int list" where
  "pages_in_range_loop [] start end_pos acc = acc"
| "pages_in_range_loop ((pos, page_num) # rest) start end_pos acc =
     (if pos \<ge> start \<and> pos < end_pos then
        (if page_num \<notin> set acc then pages_in_range_loop rest start end_pos (acc @ [page_num])
         else pages_in_range_loop rest start end_pos acc)
      else pages_in_range_loop rest start end_pos acc)"

definition get_pages_in_range :: "(int \<times> int) list \<Rightarrow> int \<Rightarrow> int \<Rightarrow> int list" where
  "get_pages_in_range page_positions start end_pos =
     (let ps = pages_in_range_loop page_positions start end_pos []
      in if ps = [] then [1] else ps)"

text \<open>
  \<open>_detect_section\<close>. Each pattern of the table is an alternation of sequences of literals
  separated by \<open>\s*\<close>; \<open>re.search\<close> looks for a match starting at any position.
\<close>

datatype pat_item = Lit pystr | Spaces

fun match_here :: "pat_item list \<Rightarrow> pystr \<Rightarrow> bool" where
  "match_here [] s = True"
| "match_here (Lit l # ps) s = (prefix l s \<and> match_here ps (drop (length l) s))"
| "match_here (Spaces # ps) [] = match_here ps []"
| "match_here (Spaces # ps) (c # cs) =
     (match_here ps (c # cs) \<or> (py_isspace c \<and> match_here (Spaces # ps) cs))"

fun tails :: "'a list \<Rightarrow> 'a list list" where
  "tails [] = [[]]"
| "tails (x # xs) = (x # xs) # tails xs"

definition re_search :: "pat_item list list \<Rightarrow> pystr \<Rightarrow> bool" where
  "re_search alts s = list_ex (\<lambda>t. list_ex (\<lambda>alt. match_here alt t) alts) (tails s)"

definition section_patterns :: "(pat_item list list \<times> pystr) list" where
  "section_patterns =
     [([[Lit [44592, 49696], Spaces, Lit [44060, 50836]]], [44592, 49696, 44060, 50836]),
      ([[Lit [44592, 51316], Spaces, Lit [44592, 49696]], [Lit [47928, 51228, 51216]]],
         [44592, 51316, 44592, 49696, 47, 47928, 51228, 51216]),
      ([[Lit [49888, 44592, 49696], Spaces, Lit [45236, 50857]]],
         [49888, 44592, 49696, 45236, 50857]),
      ([[Lit [48708, 44368], Spaces, Lit [48516, 49437]]], [48708, 44368, 48516, 49437]),
      ([[Lit [49457, 45733], Spaces, Lit [49884, 54744]], [Lit [44160, 51613]]],
         [49457, 45733, 49884, 54744, 47, 44160, 51613]),
      ([[Lit [54788, 51109], Spaces, Lit [51201, 50857]], [Lit [49892, 51201]]],
         [54788, 51109, 51201, 50857, 49892, 51201]),
      ([[Lit [44221, 51228, 49457], Spaces, Lit [48516, 49437]]],
         [44221, 51228, 49457, 48516, 49437]),
      ([[Lit [49884, 44277], Spaces, Lit [48169, 48277]]], [49884, 44277, 48169, 48277]),
      ([[Lit [54408, 51656]], [Lit [50504, 51204], Spaces, Lit [44288, 47532]]],
         [54408, 51656, 47, 50504, 51204, 44288, 47532]),
      ([[Lit [50976, 51648], Spaces, Lit [44288, 47532]]], [50976, 51648, 44288, 47532]),
      ([[Lit [53945, 54728]], [Lit [51648, 49885], Spaces, Lit [51116, 49328]]],
         [53945, 54728, 47, 51648, 49885, 51116, 49328, 44428]),
      ([[Lit [44208, 47200]], [Lit [44592, 45824], Spaces, Lit [54952, 44284]]],
         [44208, 47200, 47, 44592, 45824, 54952, 44284])]"

definition detect_section :: "pystr \<Rightarrow> pystr option" where
  "detect_section text =
     map_option snd (find (\<lambda>(pat, name). re_search pat (take 500 text)) section_patterns)"

text \<open>The page marker and text appended to the combined buffer for one page.\<close>

definition page_block :: "Page \<Rightarrow> pystr" where
  "page_block pt =
     [10, 91, 54168, 51060, 51648, 32] @ str_int (page_number pt) @ [93, 10] @ full_text pt"

definition combine_pages :: "Page list \<Rightarrow> pystr \<times> (int \<times> int) list" where
  "combine_pages page_texts =
     fold (\<lambda>pt (combined_text, page_positions).
             (combined_text @ page_block pt,
              page_positions @ [(int (length combined_text), page_number pt)]))
          page_texts ([], [])"

text \<open>The body of the sliding-window loop of \<open>chunk_document\<close>, over the window starts.\<close>

fun window_loop ::
  "DocumentChunker \<Rightarrow> pystr \<Rightarrow> pystr \<Rightarrow> pystr \<Rightarrow> (int \<times> int) list \<Rightarrow> int list \<Rightarrow> nat
     \<Rightarrow> DocumentChunk list" where
  "window_loop ch tid fname combined_text page_positions [] idx = []"
| "window_loop ch tid fname combined_text page_positions (i # rest) idx =
     (let chunk_text = py_slice combined_text i (i + dc_chunk_size ch)
      in if strip chunk_text = [] then
           window_loop ch tid fname combined_text page_positions rest idx
         else
           \<lparr> tech_id = tid, file_name = fname, chunk_index = idx,
             content = strip chunk_text,
             page_numbers = get_pages_in_range page_positions i (i + dc_chunk_size ch),
             chunk_section = detect_section chunk_text,
             token_count = Some (int (length chunk_text) div 4) \<rparr>
           # window_loop ch tid fname combined_text page_positions rest (idx + 1))"

definition chunk_pages ::
  "DocumentChunker \<Rightarrow> pystr \<Rightarrow> pystr \<Rightarrow> Page list \<Rightarrow> py_error + DocumentChunk list" where
  "chunk_pages ch tid fname ps =
     (let page_texts = filter (\<lambda>p. strip (full_text p) \<noteq> []) ps;
          (combined_text, page_positions) = combine_pages page_texts
      in case py_range0 (int (length combined_text)) (dc_chunk_size ch - dc_chunk_overlap ch) of
           Inl e \<Rightarrow> Inl e
         | Inr starts \<Rightarrow>
             Inr (window_loop ch tid fname combined_text page_positions starts 0))"

definition chunk_document :: "DocumentChunker \<Rightarrow> Document \<Rightarrow> py_error + DocumentChunk list" where
  "chunk_document ch document =
     chunk_pages ch
       (case meta_tech_id document of None \<Rightarrow> unknown | Some t \<Rightarrow> t)
       (case meta_filename document of None \<Rightarrow> unknown | Some f \<Rightarrow> f)
       (pages document)"











text \<open>
  The windows of the sliding walk: the window starting at \<open>i\<close> holds the characters at the
  offsets \<open>[i, min (i + chunk_size) (length text))\<close>. \<open>walked_windows\<close> lists every window
  of the walk and \<open>emitted_windows\<close> those that become a chunk.
\<close>

definition window_of :: "DocumentChunker \<Rightarrow> pystr \<Rightarrow> int \<Rightarrow> int \<times> int" where
  "window_of ch text i = (i, min (i + dc_chunk_size ch) (int (length text)))"

definition walked_windows :: "DocumentChunker \<Rightarrow> pystr \<Rightarrow> (int \<times> int) list" where
  "walked_windows ch text =
     (case py_range0 (int (length text)) (dc_chunk_size ch - dc_chunk_overlap ch) of
        Inl e \<Rightarrow> []
      | Inr starts \<Rightarrow> map (window_of ch text) starts)"

definition emitted_windows :: "DocumentChunker \<Rightarrow> pystr \<Rightarrow> (int \<times> int) list" where
  "emitted_windows ch text =
     (case py_range0 (int (length text)) (dc_chunk_size ch - dc_chunk_overlap ch) of
        Inl e \<Rightarrow> []
      | Inr starts \<Rightarrow>
          map (window_of ch text)
            (filter (\<lambda>i. strip (py_slice text i (i + dc_chunk_size ch)) \<noteq> []) starts))"

definition combined_text_of :: "Document \<Rightarrow> pystr" where
  "combined_text_of document =
     fst (combine_pages (filter (\<lambda>p. strip (full_text p) \<noteq> []) (pages document)))"

definition covered :: "(int \<times> int) list \<Rightarrow> int \<Rightarrow> bool" where
  "covered ws p = list_ex (\<lambda>(a, b). a \<le> p \<and> p < b) ws"

definition range_overlap :: "int \<times> int \<Rightarrow> int \<times> int \<Rightarrow> int" where
  "range_overlap w v = max 0 (min (snd w) (snd v) - max (fst w) (fst v))"


section \<open>Embedded chunks and the embedder (preprocessing/embedder.py)\<close>

text \<open>
  The dict of an embedded chunk: the fields of \<open>chunk.to_dict()\<close> with the key
  \<open>embedding\<close> and, after a failure, \<open>embedding_error\<close>. The API server builds dicts of
  the same kind that lack some keys, so apart from the two key fields every field is
  optional; a present \<open>section\<close> may hold Python's \<open>None\<close>.
\<close>

datatype section_field = SectionAbsent | SectionNone | SectionStr pystr

record Doc =
  d_tech_id :: pystr
  d_chunk_index :: int
  d_file_name :: "pystr option"
  d_content :: "pystr option"
  d_page_numbers :: "int list option"
  d_section :: section_field
  d_token_count :: "int option"
  embedding :: "rat list option"
  embedding_error :: "py_error option"

definition to_dict :: "DocumentChunk \<Rightarrow> Doc" where
  "to_dict c =
     \<lparr> d_tech_id = tech_id c, d_chunk_index = int (chunk_index c),
       d_file_name = Some (file_name c), d_content = Some (content c),
       d_page_numbers = Some (page_numbers c),
       d_section = (case chunk_section c of None \<Rightarrow> SectionNone | Some s \<Rightarrow> SectionStr s),
       d_token_count = token_count c,
       embedding = None, embedding_error = None \<rparr>"

text \<open>
  \<open>create_embedding\<close>: the text is cut to 25000 characters and the embedding service is
  called up to three times; \<open>svc n t\<close> is the outcome of attempt \<open>n\<close>. After the third
  failure the retry decorator raises.
\<close>

definition create_embedding ::
  "(nat \<Rightarrow> pystr \<Rightarrow> py_error + rat list) \<Rightarrow> pystr \<Rightarrow> py_error + rat list" where
  "create_embedding svc text =
     (let t = (if length text > 25000 then take 25000 text else text)
      in case svc 0 t of
           Inr v \<Rightarrow> Inr v
         | Inl _ \<Rightarrow>
             (case svc 1 t of
                Inr v \<Rightarrow> Inr v
              | Inl _ \<Rightarrow>
                  (case svc 2 t of
                     Inr v \<Rightarrow> Inr v
                   | Inl e \<Rightarrow> Inl e)))"

text \<open>
  \<open>create_embeddings_batch\<close>. The progress message computes \<open>(i + 1) % batch_size\<close>
  inside the \<open>try\<close> block after the record has been appended, so a zero \<open>batch_size\<close>
  raises there and the handler appends a second record for the same chunk.
\<close>

definition failed_record :: "DocumentChunk \<Rightarrow> py_error \<Rightarrow> Doc" where
  "failed_record c e = (to_dict c)\<lparr> embedding := Some [], embedding_error := Some e \<rparr>"

fun create_embeddings_batch ::
  "(nat \<Rightarrow> pystr \<Rightarrow> py_error + rat list) \<Rightarrow> DocumentChunk list \<Rightarrow> int \<Rightarrow> Doc list" where
  "create_embeddings_batch svc [] batch_size = []"
| "create_embeddings_batch svc (c # cs) batch_size =
     (case create_embedding svc (content c) of
        Inr v \<Rightarrow>
          (if batch_size = 0 then
             [(to_dict c)\<lparr> embedding := Some v \<rparr>, failed_record c PyZeroDivisionError]
           else [(to_dict c)\<lparr> embedding := Some v \<rparr>])
      | Inl e \<Rightarrow> [failed_record c e])
     @ create_embeddings_batch svc cs batch_size"

section \<open>The vector stores (vectorstore/opensearch_client.py)\<close>

text \<open>A search hit: the stored dict without its embedding, with the key \<open>_score\<close>.\<close>

record Hit = Doc +
  hit_score :: rat

text \<open>The document id and deduplication key \<open>f"{tech_id}_{chunk_index}"\<close>.\<close>

definition doc_key :: "pystr \<Rightarrow> int \<Rightarrow> pystr" where
  "doc_key tid idx = tid @ [95] @ str_int idx"

text \<open>\<open>not doc.get("embedding")\<close>: the key is missing or the vector is empty.\<close>

definition no_embedding :: "'a Doc_scheme \<Rightarrow> bool" where
  "no_embedding d = (case embedding d of None \<Rightarrow> True | Some v \<Rightarrow> v = [])"

text \<open>
  The OpenSearch index is the external service's: a map from document id to document. A
  bulk request is a list of index actions \<open>(_id, document)\<close> and the service answers
  with its \<open>errors\<close> flag or the call raises. \<open>upsert_bulk\<close> is the service that applies
  every action: an index action creates the document or replaces the one with that id.
\<close>

type_synonym os_index = "pystr \<rightharpoonup> Doc"

type_synonym bulk_client = "(pystr \<times> Doc) list \<Rightarrow> os_index \<Rightarrow> py_error + (bool \<times> os_index)"

definition store_doc :: "pystr \<times> Doc \<Rightarrow> os_index \<Rightarrow> os_index" where
  "store_doc action idx = idx(fst action \<mapsto> snd action)"

definition upsert_bulk :: bulk_client where
  "upsert_bulk body idx = Inr (False, fold store_doc body idx)"

definition bulk_body :: "Doc list \<Rightarrow> (pystr \<times> Doc) list" where
  "bulk_body batch =
     map (\<lambda>doc. (doc_key (d_tech_id doc) (d_chunk_index doc), doc))
       (filter (\<lambda>doc. \<not> no_embedding doc) batch)"

fun index_batches ::
  "bulk_client \<Rightarrow> Doc list \<Rightarrow> int \<Rightarrow> int list \<Rightarrow> int \<Rightarrow> os_index \<Rightarrow> int \<times> os_index" where
  "index_batches client documents batch_size [] indexed_count idx = (indexed_count, idx)"
| "index_batches client documents batch_size (i # rest) indexed_count idx =
     (let batch = py_slice documents i (i + batch_size);
          body = bulk_body batch
      in if body \<noteq> [] then
           (case client body idx of
              Inr (errors, idx') \<Rightarrow>
                if \<not> errors then
                  index_batches client documents batch_size rest
                    (indexed_count + int (length batch)) idx'
                else index_batches client documents batch_size rest indexed_count idx'
            | Inl e \<Rightarrow> index_batches client documents batch_size rest indexed_count idx)
         else index_batches client documents batch_size rest indexed_count idx)"

definition OpenSearch_index_documents ::
  "bulk_client option \<Rightarrow> Doc list \<Rightarrow> int \<Rightarrow> os_index \<Rightarrow> py_error + (int \<times> os_index)" where
  "OpenSearch_index_documents client documents batch_size idx =
     (case client of
        None \<Rightarrow> Inr (0, idx)
      | Some c \<Rightarrow>
          (case py_range0 (int (length documents)) batch_size of
             Inl e \<Rightarrow> Inl e
           | Inr starts \<Rightarrow> Inr (index_batches c documents batch_size starts 0 idx)))"

text \<open>\<open>LocalVectorStore.index_documents\<close>: the store is the list \<open>self.documents\<close>.\<close>

definition Local_index_documents :: "Doc list \<Rightarrow> Doc list \<Rightarrow> int \<times> Doc list" where
  "Local_index_documents documents store = (int (length documents), store @ documents)"

text \<open>
  \<open>OpenSearchVectorStore.search\<close>: the query is sent to the service and every failure
  inside the \<open>try\<close> block becomes the empty result.
\<close>

record knn_query =
  q_size :: int
  q_vector :: "rat list"
  q_k :: int
  q_filter :: "pystr option"

definition OpenSearch_search ::
  "(knn_query \<Rightarrow> py_error + Hit list) option \<Rightarrow> rat list \<Rightarrow> pystr \<Rightarrow> int \<Rightarrow> py_error + Hit list" where
  "OpenSearch_search client query_embedding tid k =
     (case client of
        None \<Rightarrow> Inr []
      | Some c \<Rightarrow>
          (let query = (if tid \<noteq> [] then
                          \<lparr> q_size = k, q_vector = query_embedding, q_k = k * 2,
                            q_filter = Some tid \<rparr>
                        else
                          \<lparr> q_size = k, q_vector = query_embedding, q_k = k,
                            q_filter = None \<rparr>)
           in case c query of
                Inl e \<Rightarrow> Inr []
              | Inr hits \<Rightarrow> Inr (py_slice_to (map (\<lambda>h. h\<lparr> embedding := None \<rparr>) hits) k)))"

section \<open>The criterion agent (agents/base_agent.py)\<close>

text \<open>
  An agent with its collaborators: the embedder's \<open>embed_query\<close>, the vector store's
  \<open>search\<close>, the judgment service behind \<open>invoke_llm\<close>, the criterion's queries and
  prompt, and \<open>json.loads\<close> (\<open>None\<close> when it raises).
\<close>

record Agent =
  criterion_name :: pystr
  config :: AWSConfig
  embed_query :: "pystr \<Rightarrow> py_error + rat list"
  search :: "rat list \<Rightarrow> pystr \<Rightarrow> int \<Rightarrow> py_error + Hit list"
  search_queries :: "pystr list"
  evaluation_prompt :: "pystr \<Rightarrow> pystr \<Rightarrow> pystr"
  invoke_llm :: "pystr \<Rightarrow> py_error + pystr"
  json_loads :: "pystr \<Rightarrow> json option"

fun search_all :: "Agent \<Rightarrow> pystr \<Rightarrow> int \<Rightarrow> pystr list \<Rightarrow> py_error + Hit list" where
  "search_all ag tid k [] = Inr []"
| "search_all ag tid k (query # rest) =
     (case embed_query ag query of
        Inl e \<Rightarrow> Inl e
      | Inr query_embedding \<Rightarrow>
          (case search ag query_embedding tid k of
             Inl e \<Rightarrow> Inl e
           | Inr results \<Rightarrow>
               (case search_all ag tid k rest of
                  Inl e \<Rightarrow> Inl e
                | Inr others \<Rightarrow> Inr (results @ others))))"

fun dedup :: "pystr list \<Rightarrow> Hit list \<Rightarrow> Hit list" where
  "dedup seen [] = []"
| "dedup seen (r # rs) =
     (let key = doc_key (d_tech_id r) (d_chunk_index r)
      in if key \<notin> set seen then r # dedup (key # seen) rs else dedup seen rs)"

text \<open>The pair a key stands for, and the key string of a hit.\<close>

abbreviation hit_key :: "Hit \<Rightarrow> pystr \<times> int" where
  "hit_key r \<equiv> (d_tech_id r, d_chunk_index r)"

abbreviation key_str :: "Hit \<Rightarrow> pystr" where
  "key_str r \<equiv> doc_key (d_tech_id r) (d_chunk_index r)"

text \<open>\<open>list.sort(key=score, reverse=True)\<close>: a stable sort by descending score.\<close>

definition sort_by_score :: "Hit list \<Rightarrow> Hit list" where
  "sort_by_score rs = sort_key (\<lambda>r. - hit_score r) rs"

definition effective_k :: "Agent \<Rightarrow> int option \<Rightarrow> int" where
  "effective_k ag k =
     (case k of
        None \<Rightarrow> retrieval_k (config ag)
      | Some k' \<Rightarrow> if k' = 0 then retrieval_k (config ag) else k')"

text \<open>The results that \<open>retrieve_context\<close> renders: \<open>unique_results[:k * len(queries)]\<close>.\<close>

definition selected_results ::
  "Agent \<Rightarrow> pystr \<Rightarrow> pystr list \<Rightarrow> int option \<Rightarrow> py_error + Hit list" where
  "selected_results ag tid queries k =
     (let k' = effective_k ag k
      in case search_all ag tid k' queries of
           Inl e \<Rightarrow> Inl e
         | Inr all_results \<Rightarrow>
             Inr (py_slice_to (sort_by_score (dedup [] all_results))
                    (k' * int (length queries))))"

definition format_int_list :: "int list \<Rightarrow> pystr" where
  "format_int_list ns = [91] @ join (asc '', '') (map str_int ns) @ [93]"

definition render_result :: "nat \<Rightarrow> Hit \<Rightarrow> pystr" where
  "render_result i r =
     [91, 47928, 49436, 32] @ str_int (int i + 1) @ [93, 32, 40, 49465, 49496, 58, 32]
     @ (case d_section r of
          SectionAbsent \<Rightarrow> [50508, 32, 49688, 32, 50630, 51020]
        | SectionNone \<Rightarrow> asc ''None''
        | SectionStr s \<Rightarrow> s)
     @ [44, 32, 54168, 51060, 51648, 58, 32]
     @ format_int_list (case d_page_numbers r of None \<Rightarrow> [] | Some ns \<Rightarrow> ns)
     @ [41, 10]
     @ (case d_content r of None \<Rightarrow> [] | Some s \<Rightarrow> s)
     @ [10]"

definition retrieve_context ::
  "Agent \<Rightarrow> pystr \<Rightarrow> pystr list \<Rightarrow> int option \<Rightarrow> py_error + pystr" where
  "retrieve_context ag tid queries k =
     (case selected_results ag tid queries k of
        Inl e \<Rightarrow> Inl e
      | Inr shown \<Rightarrow>
          Inr (join [10, 45, 45, 45, 10]
                 (map (\<lambda>(i, r). render_result i r) (zip [0 ..< length shown] shown))))"

text \<open>
  The two regular expressions of \<open>parse_evaluation_response\<close>: the body of the first
  fenced \<open>json\<close> block, else the text from the first opening brace to the last closing
  brace.
\<close>

fun split_first :: "pystr \<Rightarrow> pystr \<Rightarrow> (pystr \<times> pystr) option" where
  "split_first pat [] = (if pat = [] then Some ([], []) else None)"
| "split_first pat (c # cs) =
     (if prefix pat (c # cs) then Some ([], drop (length pat) (c # cs))
      else map_option (\<lambda>(b, a). (c # b, a)) (split_first pat cs))"

definition fenced_json :: "pystr \<Rightarrow> pystr option" where
  "fenced_json response =
     (case split_first (asc ''```json'') response of
        None \<Rightarrow> None
      | Some (_, rest) \<Rightarrow>
          (case split_first (asc ''```'') (lstrip rest) of
             None \<Rightarrow> None
           | Some (body, _) \<Rightarrow> Some (rstrip body)))"

definition braced_json :: "pystr \<Rightarrow> pystr option" where
  "braced_json response =
     (let from_open = dropWhile (\<lambda>c. c \<noteq> 123) response;
          to_close = rev (dropWhile (\<lambda>c. c \<noteq> 125) (rev from_open))
      in if to_close \<noteq> [] then Some to_close else None)"

definition extract_json :: "pystr \<Rightarrow> pystr option" where
  "extract_json response =
     (case fenced_json response of
        Some s \<Rightarrow> Some s
      | None \<Rightarrow> braced_json response)"

text \<open>Python's \<open>round\<close> to an integer: halves go to the even neighbour.\<close>

definition py_round :: "rat \<Rightarrow> int" where
  "py_round q =
     (let f = \<lfloor>q\<rfloor>; d = q - of_int f
      in if d < 1 / 2 then f else if d > 1 / 2 then f + 1 else if even f then f else f + 1)"

definition GRADE_MAP :: "int \<rightharpoonup> pystr" where
  "GRADE_MAP =
     [5 \<mapsto> [50864, 49688], 4 \<mapsto> [50577, 54840], 3 \<mapsto> [48372, 53685],
      2 \<mapsto> [48120, 55137], 1 \<mapsto> [48520, 51064, 51221]]"

definition grade_fair :: pystr where
  "grade_fair = [48372, 53685]"

text \<open>\<open>round\<close> of a number: an int is its own rounding.\<close>

definition num_round :: "pynum \<Rightarrow> int" where
  "num_round x = (case x of PyInt i \<Rightarrow> i | PyFloat q \<Rightarrow> py_round q)"

text \<open>
  The values \<open>round\<close> accepts: ints, finite floats, and the bools, which are the ints 1
  and 0. On every other value, a non-finite float included, \<open>round\<close> raises.
\<close>

definition json_number :: "json \<Rightarrow> pynum option" where
  "json_number v =
     (case v of
        JNum x \<Rightarrow> Some x
      | JBool b \<Rightarrow> Some (PyInt (if b then 1 else 0))
      | _ \<Rightarrow> None)"

definition parse_failure :: "Agent \<Rightarrow> pystr \<Rightarrow> EvaluationResult" where
  "parse_failure ag response =
     \<lparr> criterion = criterion_name ag, score = PyInt 0, grade = [54028, 49905, 50724, 47448],
       evidence = JArr [],
       comments = JStr ([51025, 45813, 32, 54028, 49905, 32, 49892, 54056, 58, 32]
                        @ take 500 response),
       pass_status = False, sub_scores = None \<rparr>"

definition parse_evaluation_response :: "Agent \<Rightarrow> pystr \<Rightarrow> EvaluationResult" where
  "parse_evaluation_response ag response =
     (case extract_json response of
        None \<Rightarrow> parse_failure ag response
      | Some json_str \<Rightarrow>
          (case json_loads ag json_str of
             None \<Rightarrow> parse_failure ag response
           | Some (JObj data) \<Rightarrow>
               (case json_number (case map_of data (asc ''score'') of
                                    None \<Rightarrow> JNum (PyInt 3) | Some v \<Rightarrow> v) of
                  None \<Rightarrow> parse_failure ag response
                | Some sc \<Rightarrow>
                    \<lparr> criterion = criterion_name ag,
                      score = sc,
                      grade = (case GRADE_MAP (num_round sc) of
                                 None \<Rightarrow> grade_fair | Some g \<Rightarrow> g),
                      evidence = (case map_of data (asc ''evidence'') of
                                    None \<Rightarrow> JArr [] | Some v \<Rightarrow> v),
                      comments = (case map_of data (asc ''comments'') of
                                    None \<Rightarrow> JStr [] | Some v \<Rightarrow> v),
                      pass_status = (num_value sc \<ge> 3),
                      sub_scores = map_of data (asc ''sub_scores'') \<rparr>)
           | Some _ \<Rightarrow> parse_failure ag response))"

definition search_failed :: "Agent \<Rightarrow> EvaluationResult" where
  "search_failed ag =
     \<lparr> criterion = criterion_name ag, score = PyInt 0, grade = [44160, 49353, 49892, 54056],
       evidence = JArr [],
       comments = JStr [44288, 47144, 32, 47928, 49436, 47484, 32, 52286, 51012, 32, 49688, 32,
                        50630, 49845, 45768, 45796, 46],
       pass_status = False, sub_scores = None \<rparr>"

definition evaluate :: "Agent \<Rightarrow> pystr \<Rightarrow> py_error + EvaluationResult" where
  "evaluate ag tid =
     (case retrieve_context ag tid (search_queries ag) None of
        Inl e \<Rightarrow> Inl e
      | Inr context \<Rightarrow>
          if context = [] then Inr (search_failed ag)
          else
            (case invoke_llm ag (evaluation_prompt ag context tid) of
               Inl e \<Rightarrow> Inl e
             | Inr response \<Rightarrow> Inr (parse_evaluation_response ag response)))"

text \<open>The values that support the slice \<open>[:100]\<close>: strings and lists.\<close>

definition sliceable :: "json \<Rightarrow> bool" where
  "sliceable c = (case c of JStr s \<Rightarrow> True | JArr xs \<Rightarrow> True | _ \<Rightarrow> False)"

text \<open>The runner of three agents (\<open>use_aws=True\<close>).\<close>

definition runner_of :: "Agent \<Rightarrow> Agent \<Rightarrow> Agent \<Rightarrow> (json \<Rightarrow> pystr) \<Rightarrow> EvaluationRunner" where
  "runner_of na pa fa fmt =
     \<lparr> novelty_agent = evaluate na, progress_agent = evaluate pa, field_agent = evaluate fa,
       format_json = fmt \<rparr>"

section \<open>Example inputs\<close>

text \<open>
  Concrete inputs at which the theorems below are instantiated: a search hit of
  submission \<open>T1\<close>, and an agent whose embedder answers every query, whose store
  returns the given hits, whose judgment service gives the given answer, whose queries are
  \<open>q1\<close> and \<open>q2\<close>, and whose JSON decoder knows the empty object.
\<close>

definition sample_hit :: "int \<Rightarrow> rat \<Rightarrow> Hit" where
  "sample_hit i s =
     \<lparr> d_tech_id = asc ''T1'', d_chunk_index = i, d_file_name = None,
       d_content = Some (asc ''text''), d_page_numbers = Some [1], d_section = SectionAbsent,
       d_token_count = None, embedding = None, embedding_error = None, hit_score = s \<rparr>"

definition sample_agent :: "Hit list \<Rightarrow> py_error + pystr \<Rightarrow> Agent" where
  "sample_agent hits answer =
     \<lparr> criterion_name = [49888, 44508, 49457], config = default_config,
       embed_query = (\<lambda>q. Inr [1]), search = (\<lambda>v t k. Inr hits),
       search_queries = [asc ''q1'', asc ''q2''],
       evaluation_prompt = (\<lambda>context tid. context), invoke_llm = (\<lambda>prompt. answer),
       json_loads = (\<lambda>s. if s = asc ''{}'' then Some (JObj []) else None) \<rparr>"

definition sample_chunk :: "nat \<Rightarrow> pystr \<Rightarrow> DocumentChunk" where
  "sample_chunk i s =
     \<lparr> tech_id = asc ''T1'', file_name = asc ''a.pdf'', chunk_index = i, content = s,
       page_numbers = [1], chunk_section = None, token_count = Some 1 \<rparr>"

definition sample_document :: "pystr \<Rightarrow> Document" where
  "sample_document s =
     \<lparr> meta_tech_id = Some (asc ''T1''), meta_filename = Some (asc ''a.pdf''),
       pages = [\<lparr> page_number = 1, full_text = s \<rparr>], table_of_contents = [] \<rparr>"

definition sample_service :: "nat \<Rightarrow> pystr \<Rightarrow> py_error + rat list" where
  "sample_service attempt t =
     (if t = asc ''bad'' then Inl (ServiceError (asc ''down'')) else Inr [1, 2])"

definition sample_format :: "json \<Rightarrow> pystr" where
  "sample_format v = asc ''[]''"

definition sample_doc :: "int \<Rightarrow> rat list \<Rightarrow> Doc" where
  "sample_doc i v =
     \<lparr> d_tech_id = asc ''T1'', d_chunk_index = i, d_file_name = None,
       d_content = Some (asc ''text''), d_page_numbers = None, d_section = SectionAbsent,
       d_token_count = None, embedding = Some v, embedding_error = None \<rparr>"

section \<open>Retrieval: deduplication, ranking and truncation\<close>

subsection \<open>Decimal rendering and the document key\<close>

lemma digits_of_range: "c \<in> set (digits_of n) \<Longrightarrow> 48 \<le> c \<and> c \<le> 57"
proof (induction n arbitrary: c rule: digits_of.induct)
  case (1 n)
  show ?case
  proof (cases "n < 10")
    case True
    with "1.prems" show ?thesis by (simp add: digits_of.simps [of n])
  next
    case False
    with "1.prems" have "c \<in> set (digits_of (n div 10)) \<or> c = 48 + n mod 10"
      by (auto simp: digits_of.simps [of n])
    then show ?thesis
    proof
      assume "c \<in> set (digits_of (n div 10))"
      with "1.IH" False show ?thesis by blast
    next
      assume "c = 48 + n mod 10"
      moreover have "n mod 10 < 10" by simp
      ultimately show ?thesis by linarith
    qed
  qed
qed

lemma digits_of_nonempty: "digits_of n \<noteq> []"
  by (simp add: digits_of.simps [of n])

lemma digits_value_digits_of: "foldl (\<lambda>acc d. acc * 10 + (d - 48)) 0 (digits_of n) = n"
proof (induction n rule: digits_of.induct)
  case (1 n)
  show ?case
  proof (cases "n < 10")
    case True
    then show ?thesis by (simp add: digits_of.simps [of n])
  next
    case False
    with "1.IH" show ?thesis by (simp add: digits_of.simps [of n])
  qed
qed

lemma digits_of_inj: "digits_of n = digits_of m \<Longrightarrow> n = m"
  by (metis digits_value_digits_of)

lemma str_int_no_underscore: "95 \<notin> set (str_int i)"
  using digits_of_range [of 95] by (auto simp: str_int_def)

lemma str_int_inj: "str_int i = str_int j \<Longrightarrow> i = j"
proof -
  assume eq: "str_int i = str_int j"
  have hd: "\<And>n. hd (digits_of n) \<noteq> 45"
  proof -
    fix n
    have "hd (digits_of n) \<in> set (digits_of n)" using digits_of_nonempty by simp
    then show "hd (digits_of n) \<noteq> 45" using digits_of_range by fastforce
  qed
  show ?thesis
  proof (cases "i < 0")
    case True
    show ?thesis
    proof (cases "j < 0")
      case jn: True
      with True eq have "digits_of (nat (- i)) = digits_of (nat (- j))" by (simp add: str_int_def)
      then have "nat (- i) = nat (- j)" by (rule digits_of_inj)
      with True jn show ?thesis by simp
    next
      case False
      with True eq have "45 # digits_of (nat (- i)) = digits_of (nat j)" by (simp add: str_int_def)
      then have "hd (digits_of (nat j)) = 45" by (metis list.sel(1))
      with hd show ?thesis by blast
    qed
  next
    case False
    show ?thesis
    proof (cases "j < 0")
      case True
      with False eq have "digits_of (nat i) = 45 # digits_of (nat (- j))" by (simp add: str_int_def)
      then have "hd (digits_of (nat i)) = 45" by (metis list.sel(1))
      with hd show ?thesis by blast
    next
      case jp: False
      with False eq have "digits_of (nat i) = digits_of (nat j)" by (simp add: str_int_def)
      then have "nat i = nat j" by (rule digits_of_inj)
      with False jp show ?thesis by simp
    qed
  qed
qed

lemma split_at_last_sep:
  assumes "c \<notin> set s" "c \<notin> set s'" "t @ c # s = t' @ c # s'"
  shows "t = t' \<and> s = s'"
proof -
  have "takeWhile (\<lambda>x. x \<noteq> c) (rev (t @ c # s)) = rev s"
    using assms(1) by (simp add: takeWhile_append)
  moreover have "takeWhile (\<lambda>x. x \<noteq> c) (rev (t' @ c # s')) = rev s'"
    using assms(2) by (simp add: takeWhile_append)
  ultimately have "s = s'" using assms(3) by (metis rev_is_rev_conv)
  with assms(3) show ?thesis by simp
qed

lemma doc_key_inj: "doc_key t i = doc_key t' i' \<longleftrightarrow> t = t' \<and> i = i'"
proof
  assume "doc_key t i = doc_key t' i'"
  then have "t @ 95 # str_int i = t' @ 95 # str_int i'" by (simp add: doc_key_def)
  then have "t = t' \<and> str_int i = str_int i'"
    using split_at_last_sep [OF str_int_no_underscore str_int_no_underscore] by blast
  then show "t = t' \<and> i = i'" using str_int_inj by blast
qed simp

subsection \<open>Deduplication\<close>

lemma dedup_keys_fresh: "r \<in> set (dedup seen rs) \<Longrightarrow> key_str r \<notin> set seen \<and> r \<in> set rs"
proof (induction rs arbitrary: seen)
  case Nil
  then show ?case by simp
next
  case (Cons a rs)
  show ?case
  proof (cases "key_str a \<in> set seen")
    case True
    with Cons.prems have "r \<in> set (dedup seen rs)" by (simp add: Let_def)
    from Cons.IH [OF this] show ?thesis by simp
  next
    case False
    with Cons.prems have "r = a \<or> r \<in> set (dedup (key_str a # seen) rs)"
      by (simp add: Let_def)
    then show ?thesis
    proof
      assume "r = a"
      with False show ?thesis by simp
    next
      assume "r \<in> set (dedup (key_str a # seen) rs)"
      from Cons.IH [OF this] show ?thesis by simp
    qed
  qed
qed

lemma dedup_distinct_str: "distinct (map key_str (dedup seen rs))"
proof (induction rs arbitrary: seen)
  case Nil
  then show ?case by simp
next
  case (Cons r rs)
  show ?case
  proof (cases "key_str r \<in> set seen")
    case True
    with Cons.IH show ?thesis by (simp add: Let_def)
  next
    case False
    have "key_str r \<notin> key_str ` set (dedup (key_str r # seen) rs)"
    proof
      assume "key_str r \<in> key_str ` set (dedup (key_str r # seen) rs)"
      then obtain x where x: "x \<in> set (dedup (key_str r # seen) rs)" "key_str x = key_str r"
        by auto
      from dedup_keys_fresh [OF x(1)] x(2) show False by simp
    qed
    with False Cons.IH [of "key_str r # seen"] show ?thesis by (simp add: Let_def)
  qed
qed

lemma dedup_distinct: "distinct (map hit_key (dedup seen rs))"
proof -
  have "inj_on (\<lambda>(t, i). doc_key t i) UNIV"
    by (auto simp: inj_on_def doc_key_inj)
  have "map key_str (dedup seen rs) = map (\<lambda>(t, i). doc_key t i) (map hit_key (dedup seen rs))"
    by simp
  then show ?thesis using dedup_distinct_str [of seen rs] by (metis distinct_map)
qed

lemma dedup_first_seen:
  "r \<in> set (dedup seen rs) \<Longrightarrow> find (\<lambda>x. hit_key x = hit_key r) rs = Some r"
proof (induction rs arbitrary: seen)
  case Nil
  then show ?case by simp
next
  case (Cons a rs)
  show ?case
  proof (cases "key_str a \<in> set seen")
    case True
    with Cons.prems have in_rest: "r \<in> set (dedup seen rs)" by (simp add: Let_def)
    then have "key_str r \<notin> set seen" using dedup_keys_fresh by blast
    with True have "hit_key a \<noteq> hit_key r" by auto
    with Cons.IH [OF in_rest] show ?thesis by auto
  next
    case False
    with Cons.prems have "r = a \<or> r \<in> set (dedup (key_str a # seen) rs)"
      by (simp add: Let_def)
    then show ?thesis
    proof
      assume "r = a" then show ?thesis by simp
    next
      assume in_rest: "r \<in> set (dedup (key_str a # seen) rs)"
      then have "key_str r \<noteq> key_str a" using dedup_keys_fresh by fastforce
      then have "hit_key a \<noteq> hit_key r" by auto
      with Cons.IH [OF in_rest] show ?thesis by auto
    qed
  qed
qed

lemma dedup_set: "hit_key ` set (dedup [] rs) = hit_key ` set rs"
proof -
  have "hit_key ` set (dedup seen rs) = {k \<in> hit_key ` set rs. (\<lambda>(t, i). doc_key t i) k \<notin> set seen}" for seen
  proof (induction rs arbitrary: seen)
    case Nil
    then show ?case by simp
  next
    case (Cons a rs)
    show ?case
      by (auto simp: Let_def Cons.IH doc_key_inj)
  qed
  then show ?thesis by simp
qed

subsection \<open>Sorting and truncation\<close>

lemma distinct_map_insort:
  "distinct (map f (insort_key g x xs)) \<longleftrightarrow> distinct (map f (x # xs))"
  by (induction xs) (auto simp: set_insort_key)

lemma distinct_map_sort_key: "distinct (map f (sort_key g xs)) \<longleftrightarrow> distinct (map f xs)"
  by (induction xs) (auto simp: distinct_map_insort)

lemma sorted_by_score: "sorted_wrt (\<lambda>a b. hit_score a \<ge> hit_score b) (sort_by_score rs)"
proof -
  have "sorted (map (\<lambda>r. - hit_score r) (sort_by_score rs))"
    by (simp add: sort_by_score_def)
  then show ?thesis by (simp add: sorted_map) 
qed

lemma sort_by_score_stable:
  "filter (\<lambda>r. hit_score r = s) (sort_by_score rs) = filter (\<lambda>r. hit_score r = s) rs"
  using sort_key_stable [of "\<lambda>r. - hit_score r" "- s" rs] by (simp add: sort_by_score_def)

lemma filter_take_prefix: "prefix (filter P (take n xs)) (filter P xs)"
proof -
  have "filter P xs = filter P (take n xs) @ filter P (drop n xs)"
    by (metis append_take_drop_id filter_append)
  then show ?thesis by (simp add: prefix_def)
qed

lemma py_slice_to_take: "py_slice_to xs b = take (slice_bound (length xs) b) xs"
  by (simp add: py_slice_to_def)

lemma slice_bound_nonneg: "0 \<le> b \<Longrightarrow> slice_bound n b \<le> nat b"
  by (simp add: slice_bound_def)

section \<open>Aggregation of the three criterion results\<close>

lemma to_float_value: "to_float x = Inr q \<Longrightarrow> q = num_value x"
  by (cases x) (auto simp: to_float_def num_value_def split: if_splits)

lemma times_int_value: "num_value (times_int x k) = num_value x * of_int k"
  by (cases x) (simp_all add: times_int_def num_value_def)

lemma run_full_evaluation_Inr:
  assumes "run_full_evaluation r tid = Inr res"
  obtains n p f s where
    "novelty_agent r tid = Inr n" "progress_agent r tid = Inr p" "field_agent r tid = Inr f"
    "generate_summary (format_json r) (n, p) f (overall_score res) (overall_pass res) = Inr s"
    "overall_score res =
       (num_value (score n) * (1 / 2) + num_value (score p) * (1 / 2)) * 10
       + num_value (score f) * 10"
    "overall_pass res \<longleftrightarrow>
       pass_status n \<and> pass_status p \<and> pass_status f \<and> overall_score res \<ge> 70"
    "summary res = s" "novelty (stage_1 res) = n" "progressiveness (stage_1 res) = p"
    "field_applicability (stage_2 res) = f"
proof -
  from assms obtain n p f a b c s where
    ag: "novelty_agent r tid = Inr n" "progress_agent r tid = Inr p" "field_agent r tid = Inr f"
    and fl: "to_float (score n) = Inr a" "to_float (score p) = Inr b"
      "to_float (times_int (score f) 10) = Inr c"
    and s: "generate_summary (format_json r) (n, p) f
              ((a * (1 / 2) + b * (1 / 2)) * 10 + c)
              (pass_status n \<and> pass_status p \<and> pass_status f \<and>
               (a * (1 / 2) + b * (1 / 2)) * 10 + c \<ge> 70) = Inr s"
    and res: "res = \<lparr> fe_tech_id = tid,
                stage_1 = \<lparr> novelty = n, progressiveness = p,
                            s1_total_score = (a * (1 / 2) + b * (1 / 2)) * 10,
                            s1_pass = (pass_status n \<and> pass_status p) \<rparr>,
                stage_2 = \<lparr> field_applicability = f,
                            s2_total_score = times_int (score f) 10,
                            s2_pass = pass_status f \<rparr>,
                overall_score = (a * (1 / 2) + b * (1 / 2)) * 10 + c,
                overall_pass = (pass_status n \<and> pass_status p \<and> pass_status f \<and>
                                (a * (1 / 2) + b * (1 / 2)) * 10 + c \<ge> 70),
                summary = s \<rparr>"
    unfolding run_full_evaluation_def run_stage_1_def run_stage_2_def Let_def
    by (auto split: sum.splits)
  have v: "a = num_value (score n)" "b = num_value (score p)" "c = num_value (score f) * 10"
    using fl to_float_value times_int_value [of "score f" 10] by auto
  show thesis
    by (rule that [of n p f s]) (use ag s v in \<open>simp_all add: res\<close>)
qed



section \<open>Criterion evaluation and aggregation: when they return\<close>

lemma comments_head_sliceable: "sliceable c \<Longrightarrow> \<exists>h. comments_head fmt c = Inr h"
  by (cases c) (simp_all add: sliceable_def comments_head_def)

lemma recommendation_lines_total:
  "\<forall>x \<in> set xs. sliceable (comments x) \<Longrightarrow> \<exists>ls. recommendation_lines fmt xs = Inr ls"
proof (induction xs)
  case Nil
  then show ?case by simp
next
  case (Cons x xs)
  then obtain ls where ls: "recommendation_lines fmt xs = Inr ls" by auto
  from Cons.prems obtain h where h: "comments_head fmt (comments x) = Inr h"
    using comments_head_sliceable by fastforce
  show ?case using ls h by simp
qed

lemma recommendation_lines_mem:
  "recommendation_lines fmt xs = Inr ls \<Longrightarrow> x \<in> set xs \<Longrightarrow> \<not> pass_status x \<Longrightarrow>
   comments x = JStr c \<Longrightarrow> criterion x @ needs_work @ take 100 c \<in> set ls"
proof (induction xs arbitrary: ls)
  case Nil
  then show ?case by simp
next
  case (Cons a xs)
  show ?case
  proof (cases "pass_status a")
    case True
    with Cons.prems have "recommendation_lines fmt xs = Inr ls" "x \<in> set xs" by auto
    with Cons.IH Cons.prems show ?thesis by blast
  next
    case False
    with Cons.prems(1) obtain h ls' where
      h: "comments_head fmt (comments a) = Inr h"
      and ls': "recommendation_lines fmt xs = Inr ls'"
      and ls: "ls = (criterion a @ needs_work @ h) # ls'"
      by (auto split: sum.splits)
    show ?thesis
    proof (cases "x = a")
      case True
      with h Cons.prems(4) have "h = take 100 c" by (simp add: comments_head_def)
      with ls True show ?thesis by simp
    next
      case False
      with Cons.prems have "x \<in> set xs" by simp
      from Cons.IH [OF ls' this Cons.prems(3,4)] ls show ?thesis by simp
    qed
  qed
qed

lemma generate_summary_total:
  assumes "sliceable (comments n)" "sliceable (comments p)" "sliceable (comments f)"
  shows "\<exists>s. generate_summary fmt (n, p) f ov ps = Inr s"
proof -
  have "\<forall>x \<in> set [n, p, f]. sliceable (comments x)" using assms by simp
  from recommendation_lines_total [OF this]
  obtain ls where "recommendation_lines fmt [n, p, f] = Inr ls" by blast
  then show ?thesis by (simp add: generate_summary_def del: recommendation_lines.simps)
qed

lemma generate_summary_points:
  assumes "generate_summary fmt (n, p) f ov ps = Inr s" and "x \<in> {n, p, f}"
  shows "(num_value (score x) < 3 \<longrightarrow> point_line x \<in> set (weak_points s)) \<and>
         (\<not> pass_status x \<longrightarrow> (\<forall>c. comments x = JStr c \<longrightarrow>
            criterion x @ needs_work @ take 100 c \<in> set (recommendations s)))"
proof -
  from assms(1) obtain ls where
    ls: "recommendation_lines fmt [n, p, f] = Inr ls"
    and w: "weak_points s = map point_line (filter (\<lambda>res. num_value (score res) < 3) [n, p, f])"
    and r: "recommendations s = ls"
    by (auto simp: generate_summary_def Let_def simp del: recommendation_lines.simps
        split: sum.splits)
  have x: "x \<in> set [n, p, f]" using assms(2) by auto
  have "num_value (score x) < 3 \<longrightarrow> point_line x \<in> set (weak_points s)"
    using x unfolding w by auto
  moreover have "\<not> pass_status x \<longrightarrow> (\<forall>c. comments x = JStr c \<longrightarrow>
            criterion x @ needs_work @ take 100 c \<in> set (recommendations s))"
    using recommendation_lines_mem [OF ls x] r by blast
  ultimately show ?thesis by blast
qed

lemma to_float_cases: "to_float x = Inl PyOverflowError \<or> (\<exists>q. to_float x = Inr q)"
  by (cases x) (simp_all add: to_float_def)

lemma run_full_evaluation_total:
  assumes "novelty_agent r tid = Inr n" "progress_agent r tid = Inr p" "field_agent r tid = Inr f"
    and "sliceable (comments n)" "sliceable (comments p)" "sliceable (comments f)"
    and "to_float (score n) \<noteq> Inl PyOverflowError"
    and "to_float (score p) \<noteq> Inl PyOverflowError"
    and "to_float (times_int (score f) 10) \<noteq> Inl PyOverflowError"
  shows "\<exists>res. run_full_evaluation r tid = Inr res \<and> novelty (stage_1 res) = n \<and>
           progressiveness (stage_1 res) = p \<and> field_applicability (stage_2 res) = f"
proof -
  from assms(7-9) to_float_cases obtain a b c where
    fl: "to_float (score n) = Inr a" "to_float (score p) = Inr b"
      "to_float (times_int (score f) 10) = Inr c"
    by metis
  let ?ov = "(a * (1 / 2) + b * (1 / 2)) * 10 + c"
  let ?ps = "pass_status n \<and> pass_status p \<and> pass_status f \<and> ?ov \<ge> 70"
  from generate_summary_total [OF assms(4-6)]
  obtain s where "generate_summary (format_json r) (n, p) f ?ov ?ps = Inr s" by blast
  then show ?thesis using assms(1-3) fl
    by (simp add: run_full_evaluation_def run_stage_1_def run_stage_2_def Let_def)
qed

lemma run_full_evaluation_overflow:
  assumes "novelty_agent r tid = Inr n" "progress_agent r tid = Inr p" "field_agent r tid = Inr f"
    and "to_float (score n) = Inl PyOverflowError \<or> to_float (score p) = Inl PyOverflowError \<or>
         to_float (times_int (score f) 10) = Inl PyOverflowError"
  shows "run_full_evaluation r tid = Inl PyOverflowError"
  using assms to_float_cases [of "score n"] to_float_cases [of "score p"]
  by (auto simp: run_full_evaluation_def run_stage_1_def run_stage_2_def Let_def
      split: sum.splits)

lemma run_full_evaluation_overflow_example:
  "run_full_evaluation
     (mock_runner\<lparr> novelty_agent :=
        (\<lambda>_. Inr \<lparr> criterion = asc ''n'', score = PyInt (10 ^ 400), grade = grade_fair,
                     evidence = JArr [], comments = JStr [], pass_status = True,
                     sub_scores = None \<rparr>) \<rparr>)
     (asc ''2367'') = Inl PyOverflowError"
  by (simp add: run_full_evaluation_def run_stage_1_def run_stage_2_def mock_runner_def
      mock_evaluate_def to_float_def float_limit_def)

lemma run_full_evaluation_propagates:
  "novelty_agent r tid = Inl e \<Longrightarrow> run_full_evaluation r tid = Inl e"
  "novelty_agent r tid = Inr n \<Longrightarrow> progress_agent r tid = Inl e \<Longrightarrow>
     run_full_evaluation r tid = Inl e"
  "novelty_agent r tid = Inr n \<Longrightarrow> progress_agent r tid = Inr p \<Longrightarrow> field_agent r tid = Inl e \<Longrightarrow>
     run_full_evaluation r tid = Inl e"
  by (simp_all add: run_full_evaluation_def run_stage_1_def run_stage_2_def)

lemma search_all_total:
  assumes "\<forall>q. \<exists>v. embed_query a q = Inr v" "\<forall>v t k. \<exists>hs. search a v t k = Inr hs"
  shows "\<exists>pool. search_all a tid k qs = Inr pool"
proof (induction qs)
  case Nil
  then show ?case by simp
next
  case (Cons q qs)
  then obtain rest where rest: "search_all a tid k qs = Inr rest" by blast
  from assms(1) obtain v where v: "embed_query a q = Inr v" by blast
  from assms(2) obtain hs where hs: "search a v tid k = Inr hs" by blast
  show ?case using rest v hs by simp
qed

lemma retrieve_context_total:
  assumes "\<forall>q. \<exists>v. embed_query a q = Inr v" "\<forall>v t k. \<exists>hs. search a v t k = Inr hs"
  shows "\<exists>c. retrieve_context a tid qs k = Inr c"
proof -
  from search_all_total [OF assms] obtain pool where
    "search_all a tid (effective_k a k) qs = Inr pool" by blast
  then show ?thesis by (simp add: retrieve_context_def selected_results_def Let_def)
qed

lemma parse_comments_sliceable:
  assumes "\<forall>s data c. json_loads a s = Some (JObj data) \<longrightarrow>
             map_of data (asc ''comments'') = Some c \<longrightarrow> sliceable c"
  shows "sliceable (comments (parse_evaluation_response a resp))"
proof -
  have pf: "sliceable (comments (parse_failure a resp))"
    by (simp add: parse_failure_def sliceable_def)
  show ?thesis
  proof (cases "extract_json resp")
    case None
    with pf show ?thesis by (simp add: parse_evaluation_response_def)
  next
    case (Some js)
    show ?thesis
    proof (cases "json_loads a js")
      case None
      with Some pf show ?thesis by (simp add: parse_evaluation_response_def)
    next
      case (Some v)
      note v = this
      show ?thesis
      proof (cases v)
        case (JObj data)
        with assms v have c: "\<And>c. map_of data (asc ''comments'') = Some c \<Longrightarrow> sliceable c"
          by blast
        have d: "sliceable (case map_of data (asc ''comments'') of None \<Rightarrow> JStr [] | Some v \<Rightarrow> v)"
          using c by (auto simp: sliceable_def split: option.splits)
        show ?thesis using \<open>extract_json resp = Some js\<close> v JObj pf d
          by (auto simp: parse_evaluation_response_def split: option.splits)
      qed (use \<open>extract_json resp = Some js\<close> v pf in
            \<open>simp_all add: parse_evaluation_response_def\<close>)
    qed
  qed
qed

lemma parse_score_property:
  assumes "\<forall>s data x. json_loads a s = Some (JObj data) \<longrightarrow>
             map_of data (asc ''score'') = Some (JNum x) \<longrightarrow> P x"
    and "P (PyInt 0)" and "P (PyInt 1)" and "P (PyInt 3)"
  shows "P (score (parse_evaluation_response a resp))"
proof -
  have pf: "P (score (parse_failure a resp))"
    using assms(2) by (simp add: parse_failure_def)
  show ?thesis
  proof (cases "extract_json resp")
    case None
    with pf show ?thesis by (simp add: parse_evaluation_response_def)
  next
    case (Some js)
    note js = this
    show ?thesis
    proof (cases "json_loads a js")
      case None
      with js pf show ?thesis by (simp add: parse_evaluation_response_def)
    next
      case (Some v)
      note v = this
      show ?thesis
      proof (cases v)
        case (JObj data)
        let ?sv = "case map_of data (asc ''score'') of None \<Rightarrow> JNum (PyInt 3) | Some v \<Rightarrow> v"
        show ?thesis
        proof (cases "json_number ?sv")
          case None
          with js v JObj pf show ?thesis by (simp add: parse_evaluation_response_def)
        next
          case (Some sc)
          have "P sc"
          proof (cases "map_of data (asc ''score'')")
            case None
            with Some assms(4) show ?thesis by (simp add: json_number_def)
          next
            case (Some w)
            with \<open>json_number ?sv = Some sc\<close> have w: "json_number w = Some sc" by simp
            show ?thesis
            proof (cases w)
              case (JNum x)
              with w have "sc = x" by (simp add: json_number_def)
              with assms(1) v JObj Some JNum show ?thesis by blast
            next
              case (JBool b)
              with w assms(2,3) show ?thesis by (auto simp: json_number_def)
            qed (use w in \<open>simp_all add: json_number_def\<close>)
          qed
          with js v JObj Some show ?thesis by (simp add: parse_evaluation_response_def)
        qed
      qed (use js v pf in \<open>simp_all add: parse_evaluation_response_def\<close>)
    qed
  qed
qed

lemma parse_unparseable:
  assumes "\<forall>s data. extract_json resp = Some s \<longrightarrow> json_loads a s = Some (JObj data) \<longrightarrow>
             json_number (case map_of data (asc ''score'') of
                            None \<Rightarrow> JNum (PyInt 3) | Some v \<Rightarrow> v) = None"
  shows "parse_evaluation_response a resp = parse_failure a resp"
  using assms
  by (auto simp: parse_evaluation_response_def split: option.splits json.splits)

lemma evaluate_cases:
  assumes "evaluate a tid = Inr x"
  shows "(retrieve_context a tid (search_queries a) None = Inr [] \<and> x = search_failed a) \<or>
         (\<exists>c resp. retrieve_context a tid (search_queries a) None = Inr c \<and> c \<noteq> [] \<and>
            invoke_llm a (evaluation_prompt a c tid) = Inr resp \<and>
            x = parse_evaluation_response a resp)"
  using assms by (auto simp: evaluate_def split: sum.splits if_splits)

lemma evaluate_total:
  assumes "\<forall>q. \<exists>v. embed_query a q = Inr v" "\<forall>v t k. \<exists>hs. search a v t k = Inr hs"
    and "\<forall>p. \<exists>resp. invoke_llm a p = Inr resp"
  shows "\<exists>x. evaluate a tid = Inr x \<and>
             (x = search_failed a \<or> (\<exists>resp. x = parse_evaluation_response a resp))"
proof -
  from retrieve_context_total [OF assms(1,2)] obtain c where
    c: "retrieve_context a tid (search_queries a) None = Inr c" by blast
  show ?thesis
  proof (cases "c = []")
    case True
    with c show ?thesis by (simp add: evaluate_def)
  next
    case False
    from assms(3) obtain resp where
      "invoke_llm a (evaluation_prompt a c tid) = Inr resp" by blast
    with c False show ?thesis by (auto simp: evaluate_def)
  qed
qed

lemma evaluate_result_sliceable:
  assumes "\<forall>s data c. json_loads a s = Some (JObj data) \<longrightarrow>
             map_of data (asc ''comments'') = Some c \<longrightarrow> sliceable c"
    and "x = search_failed a \<or> (\<exists>resp. x = parse_evaluation_response a resp)"
  shows "sliceable (comments x)"
  using assms(2) parse_comments_sliceable [OF assms(1)]
  by (auto simp: search_failed_def sliceable_def)

lemma evaluate_result_score:
  assumes "\<forall>s data x. json_loads a s = Some (JObj data) \<longrightarrow>
             map_of data (asc ''score'') = Some (JNum x) \<longrightarrow> P x"
    and "P (PyInt 0)" and "P (PyInt 1)" and "P (PyInt 3)"
    and "x = search_failed a \<or> (\<exists>resp. x = parse_evaluation_response a resp)"
  shows "P (score x)"
  using assms(5) parse_score_property [of a P, OF assms(1-4)] assms(2)
  by (auto simp: search_failed_def)

lemma small_ints_convert:
  "to_float (PyInt 0) \<noteq> Inl PyOverflowError" "to_float (PyInt 1) \<noteq> Inl PyOverflowError"
  "to_float (PyInt 3) \<noteq> Inl PyOverflowError"
  "to_float (times_int (PyInt 0) 10) \<noteq> Inl PyOverflowError"
  "to_float (times_int (PyInt 1) 10) \<noteq> Inl PyOverflowError"
  "to_float (times_int (PyInt 3) 10) \<noteq> Inl PyOverflowError"
  by (simp_all add: to_float_def times_int_def float_limit_def)

lemma search_all_embed_error:
  assumes "\<forall>u \<in> set us. \<exists>v hs. embed_query a u = Inr v \<and> search a v tid k = Inr hs"
    and "embed_query a q = Inl e"
  shows "search_all a tid k (us @ q # vs) = Inl e"
  using assms by (induction us) auto

lemma search_all_search_error:
  assumes "\<forall>u \<in> set us. \<exists>v hs. embed_query a u = Inr v \<and> search a v tid k = Inr hs"
    and "embed_query a q = Inr v" and "search a v tid k = Inl e"
  shows "search_all a tid k (us @ q # vs) = Inl e"
  using assms by (induction us) auto

lemma evaluate_retrieval_error:
  assumes "search_all a tid (retrieval_k (config a)) (search_queries a) = Inl e"
  shows "evaluate a tid = Inl e"
  using assms
  by (simp add: evaluate_def retrieve_context_def selected_results_def effective_k_def)

lemma OpenSearch_search_failure:
  assumes "\<forall>q. \<exists>e. c q = Inl e"
  shows "OpenSearch_search (Some c) v t k = Inr []"
proof -
  from assms obtain e1 where
    "c \<lparr> q_size = k, q_vector = v, q_k = k * 2, q_filter = Some t \<rparr> = Inl e1" by blast
  moreover from assms obtain e2 where
    "c \<lparr> q_size = k, q_vector = v, q_k = k, q_filter = None \<rparr> = Inl e2" by blast
  ultimately show ?thesis by (simp add: OpenSearch_search_def Let_def)
qed

lemma OpenSearch_search_total: "\<exists>hs. OpenSearch_search c v t k = Inr hs"
  by (auto simp: OpenSearch_search_def Let_def split: option.splits sum.splits)

section \<open>Errors at the runner boundary\<close>

text \<open>
  C2 (amended). For every behaviour of the three criterion evaluations in which every
  embedding call, every search and every judgment-service call returns, the comments of a
  decoded judgment are a string or a list, and a decoded score is not an int too large
  for the float arithmetic of the aggregation, \<open>run_full_evaluation\<close> returns a complete
  outcome that holds the three criterion results. A criterion result is the zero-score
  failed result \<open>search_failed\<close> when the retrieved context is empty, and otherwise the
  parsed judgment, which is the zero-score failed result \<open>parse_failure\<close> whenever no JSON
  is found, decoding fails, the decoded value is not an object or its score is not a
  number. A failing search of the OpenSearch store never raises: it is the empty result.
  An error raised by an embedding call or by the judgment service (or by the search of a
  store that does raise) is not caught by the agent or the runner: it leaves the
  criterion evaluation and \<open>run_full_evaluation\<close> as that error.
\<close>

theorem run_full_evaluation_returns_unless_service_raises:
  "(((\<forall>a \<in> {na, pa, fa}.
        (\<forall>q. \<exists>v. embed_query a q = Inr v) \<and>
        (\<forall>v t k. \<exists>hs. search a v t k = Inr hs) \<and>
        (\<forall>p. \<exists>resp. invoke_llm a p = Inr resp) \<and>
        (\<forall>s data c. json_loads a s = Some (JObj data) \<longrightarrow>
           map_of data (asc ''comments'') = Some c \<longrightarrow> sliceable c)) \<and>
     (\<forall>a \<in> {na, pa}. \<forall>s data x. json_loads a s = Some (JObj data) \<longrightarrow>
        map_of data (asc ''score'') = Some (JNum x) \<longrightarrow> to_float x \<noteq> Inl PyOverflowError) \<and>
     (\<forall>s data x. json_loads fa s = Some (JObj data) \<longrightarrow>
        map_of data (asc ''score'') = Some (JNum x) \<longrightarrow>
        to_float (times_int x 10) \<noteq> Inl PyOverflowError)) \<longrightarrow>
    (\<exists>res. run_full_evaluation (runner_of na pa fa fmt) tid = Inr res \<and>
       evaluate na tid = Inr (novelty (stage_1 res)) \<and>
       evaluate pa tid = Inr (progressiveness (stage_1 res)) \<and>
       evaluate fa tid = Inr (field_applicability (stage_2 res)))) \<and>
   (\<forall>a x. evaluate a tid = Inr x \<longrightarrow>
      (retrieve_context a tid (search_queries a) None = Inr [] \<and> x = search_failed a) \<or>
      (\<exists>c resp. retrieve_context a tid (search_queries a) None = Inr c \<and> c \<noteq> [] \<and>
         invoke_llm a (evaluation_prompt a c tid) = Inr resp \<and>
         x = parse_evaluation_response a resp)) \<and>
   (\<forall>a. score (search_failed a) = PyInt 0 \<and> \<not> pass_status (search_failed a)) \<and>
   (\<forall>a resp.
      (\<forall>s data. extract_json resp = Some s \<longrightarrow> json_loads a s = Some (JObj data) \<longrightarrow>
         json_number (case map_of data (asc ''score'') of
                        None \<Rightarrow> JNum (PyInt 3) | Some v \<Rightarrow> v) = None) \<longrightarrow>
      parse_evaluation_response a resp = parse_failure a resp) \<and>
   (\<forall>a resp. score (parse_failure a resp) = PyInt 0 \<and> \<not> pass_status (parse_failure a resp)) \<and>
   (\<forall>c v t k. \<exists>hs. OpenSearch_search c v t k = Inr hs) \<and>
   (\<forall>c v t k. (\<forall>q. \<exists>e. c q = Inl e) \<longrightarrow> OpenSearch_search (Some c) v t k = Inr []) \<and>
   (\<forall>a e us q vs.
      search_queries a = us @ q # vs \<and>
      (\<forall>u \<in> set us. \<exists>v hs. embed_query a u = Inr v \<and>
         search a v tid (retrieval_k (config a)) = Inr hs) \<and>
      embed_query a q = Inl e \<longrightarrow>
      evaluate a tid = Inl e) \<and>
   (\<forall>a e us q vs v.
      search_queries a = us @ q # vs \<and>
      (\<forall>u \<in> set us. \<exists>v hs. embed_query a u = Inr v \<and>
         search a v tid (retrieval_k (config a)) = Inr hs) \<and>
      embed_query a q = Inr v \<and> search a v tid (retrieval_k (config a)) = Inl e \<longrightarrow>
      evaluate a tid = Inl e) \<and>
   (\<forall>a e c. retrieve_context a tid (search_queries a) None = Inr c \<and> c \<noteq> [] \<and>
      invoke_llm a (evaluation_prompt a c tid) = Inl e \<longrightarrow>
      evaluate a tid = Inl e) \<and>
   (\<forall>e. evaluate na tid = Inl e \<longrightarrow>
      run_full_evaluation (runner_of na pa fa fmt) tid = Inl e) \<and>
   (\<forall>e n. evaluate na tid = Inr n \<and> evaluate pa tid = Inl e \<longrightarrow>
      run_full_evaluation (runner_of na pa fa fmt) tid = Inl e) \<and>
   (\<forall>e n p. evaluate na tid = Inr n \<and> evaluate pa tid = Inr p \<and> evaluate fa tid = Inl e \<longrightarrow>
      run_full_evaluation (runner_of na pa fa fmt) tid = Inl e)"
proof -
  have A: "((\<forall>a \<in> {na, pa, fa}.
        (\<forall>q. \<exists>v. embed_query a q = Inr v) \<and>
        (\<forall>v t k. \<exists>hs. search a v t k = Inr hs) \<and>
        (\<forall>p. \<exists>resp. invoke_llm a p = Inr resp) \<and>
        (\<forall>s data c. json_loads a s = Some (JObj data) \<longrightarrow>
           map_of data (asc ''comments'') = Some c \<longrightarrow> sliceable c)) \<and>
     (\<forall>a \<in> {na, pa}. \<forall>s data x. json_loads a s = Some (JObj data) \<longrightarrow>
        map_of data (asc ''score'') = Some (JNum x) \<longrightarrow> to_float x \<noteq> Inl PyOverflowError) \<and>
     (\<forall>s data x. json_loads fa s = Some (JObj data) \<longrightarrow>
        map_of data (asc ''score'') = Some (JNum x) \<longrightarrow>
        to_float (times_int x 10) \<noteq> Inl PyOverflowError)) \<longrightarrow>
    (\<exists>res. run_full_evaluation (runner_of na pa fa fmt) tid = Inr res \<and>
       evaluate na tid = Inr (novelty (stage_1 res)) \<and>
       evaluate pa tid = Inr (progressiveness (stage_1 res)) \<and>
       evaluate fa tid = Inr (field_applicability (stage_2 res)))"
  proof
    assume h: "(\<forall>a \<in> {na, pa, fa}.
        (\<forall>q. \<exists>v. embed_query a q = Inr v) \<and>
        (\<forall>v t k. \<exists>hs. search a v t k = Inr hs) \<and>
        (\<forall>p. \<exists>resp. invoke_llm a p = Inr resp) \<and>
        (\<forall>s data c. json_loads a s = Some (JObj data) \<longrightarrow>
           map_of data (asc ''comments'') = Some c \<longrightarrow> sliceable c)) \<and>
     (\<forall>a \<in> {na, pa}. \<forall>s data x. json_loads a s = Some (JObj data) \<longrightarrow>
        map_of data (asc ''score'') = Some (JNum x) \<longrightarrow> to_float x \<noteq> Inl PyOverflowError) \<and>
     (\<forall>s data x. json_loads fa s = Some (JObj data) \<longrightarrow>
        map_of data (asc ''score'') = Some (JNum x) \<longrightarrow>
        to_float (times_int x 10) \<noteq> Inl PyOverflowError)"
    have ev: "\<exists>x. evaluate a tid = Inr x \<and> sliceable (comments x) \<and>
             (x = search_failed a \<or> (\<exists>resp. x = parse_evaluation_response a resp))"
      if a: "a \<in> {na, pa, fa}" for a
    proof -
      from h a have e: "\<forall>q. \<exists>v. embed_query a q = Inr v"
        and s: "\<forall>v t k. \<exists>hs. search a v t k = Inr hs"
        and l: "\<forall>p. \<exists>resp. invoke_llm a p = Inr resp"
        and c: "\<forall>s data c. json_loads a s = Some (JObj data) \<longrightarrow>
                  map_of data (asc ''comments'') = Some c \<longrightarrow> sliceable c"
        by blast+
      from evaluate_total [OF e s l] obtain x where
        x: "evaluate a tid = Inr x"
          "x = search_failed a \<or> (\<exists>resp. x = parse_evaluation_response a resp)"
        by blast
      from evaluate_result_sliceable [OF c x(2)] x show ?thesis by blast
    qed
    from ev [of na] obtain n where n: "evaluate na tid = Inr n" "sliceable (comments n)"
      "n = search_failed na \<or> (\<exists>resp. n = parse_evaluation_response na resp)" by auto
    from ev [of pa] obtain p where p: "evaluate pa tid = Inr p" "sliceable (comments p)"
      "p = search_failed pa \<or> (\<exists>resp. p = parse_evaluation_response pa resp)" by auto
    from ev [of fa] obtain f where f: "evaluate fa tid = Inr f" "sliceable (comments f)"
      "f = search_failed fa \<or> (\<exists>resp. f = parse_evaluation_response fa resp)" by auto
    from h have sn: "\<forall>s data x. json_loads na s = Some (JObj data) \<longrightarrow>
        map_of data (asc ''score'') = Some (JNum x) \<longrightarrow> to_float x \<noteq> Inl PyOverflowError"
      and sp: "\<forall>s data x. json_loads pa s = Some (JObj data) \<longrightarrow>
        map_of data (asc ''score'') = Some (JNum x) \<longrightarrow> to_float x \<noteq> Inl PyOverflowError"
      and sf: "\<forall>s data x. json_loads fa s = Some (JObj data) \<longrightarrow>
        map_of data (asc ''score'') = Some (JNum x) \<longrightarrow>
        to_float (times_int x 10) \<noteq> Inl PyOverflowError"
      by blast+
    have cn: "to_float (score n) \<noteq> Inl PyOverflowError"
      using sn small_ints_convert(1-3) n(3)
      by (rule evaluate_result_score [where P = "\<lambda>x. to_float x \<noteq> Inl PyOverflowError"])
    have cp: "to_float (score p) \<noteq> Inl PyOverflowError"
      using sp small_ints_convert(1-3) p(3)
      by (rule evaluate_result_score [where P = "\<lambda>x. to_float x \<noteq> Inl PyOverflowError"])
    have cf: "to_float (times_int (score f) 10) \<noteq> Inl PyOverflowError"
      using sf small_ints_convert(4-6) f(3)
      by (rule evaluate_result_score
                [where P = "\<lambda>x. to_float (times_int x 10) \<noteq> Inl PyOverflowError"])
    have "\<exists>res. run_full_evaluation (runner_of na pa fa fmt) tid = Inr res \<and>
            novelty (stage_1 res) = n \<and> progressiveness (stage_1 res) = p \<and>
            field_applicability (stage_2 res) = f"
      using n(1,2) p(1,2) f(1,2) cn cp cf
      by (intro run_full_evaluation_total) (simp_all add: runner_of_def)
    with n(1) p(1) f(1)
    show "\<exists>res. run_full_evaluation (runner_of na pa fa fmt) tid = Inr res \<and>
       evaluate na tid = Inr (novelty (stage_1 res)) \<and>
       evaluate pa tid = Inr (progressiveness (stage_1 res)) \<and>
       evaluate fa tid = Inr (field_applicability (stage_2 res))"
      by auto
  qed
  have B1: "\<forall>a x. evaluate a tid = Inr x \<longrightarrow>
      (retrieve_context a tid (search_queries a) None = Inr [] \<and> x = search_failed a) \<or>
      (\<exists>c resp. retrieve_context a tid (search_queries a) None = Inr c \<and> c \<noteq> [] \<and>
         invoke_llm a (evaluation_prompt a c tid) = Inr resp \<and>
         x = parse_evaluation_response a resp)"
    using evaluate_cases by blast
  have B2: "\<forall>a. score (search_failed a) = PyInt 0 \<and> \<not> pass_status (search_failed a)"
    by (simp add: search_failed_def)
  have B3: "\<forall>a resp.
      (\<forall>s data. extract_json resp = Some s \<longrightarrow> json_loads a s = Some (JObj data) \<longrightarrow>
         json_number (case map_of data (asc ''score'') of
                        None \<Rightarrow> JNum (PyInt 3) | Some v \<Rightarrow> v) = None) \<longrightarrow>
      parse_evaluation_response a resp = parse_failure a resp"
    using parse_unparseable by blast
  have B4: "\<forall>a resp. score (parse_failure a resp) = PyInt 0 \<and>
              \<not> pass_status (parse_failure a resp)"
    by (simp add: parse_failure_def)
  have C1: "\<forall>c v t k. \<exists>hs. OpenSearch_search c v t k = Inr hs"
    using OpenSearch_search_total by blast
  have C2: "\<forall>c v t k. (\<forall>q. \<exists>e. c q = Inl e) \<longrightarrow> OpenSearch_search (Some c) v t k = Inr []"
    using OpenSearch_search_failure by blast
  have D1: "\<forall>a e us q vs.
      search_queries a = us @ q # vs \<and>
      (\<forall>u \<in> set us. \<exists>v hs. embed_query a u = Inr v \<and>
         search a v tid (retrieval_k (config a)) = Inr hs) \<and>
      embed_query a q = Inl e \<longrightarrow>
      evaluate a tid = Inl e"
  proof (intro allI impI, elim conjE)
    fix a :: Agent and e us q vs
    assume q: "search_queries a = us @ q # vs"
      and us: "\<forall>u \<in> set us. \<exists>v hs. embed_query a u = Inr v \<and>
         search a v tid (retrieval_k (config a)) = Inr hs"
      and e: "embed_query a q = Inl e"
    from search_all_embed_error [OF us e]
    have "search_all a tid (retrieval_k (config a)) (search_queries a) = Inl e"
      unfolding q .
    then show "evaluate a tid = Inl e" by (rule evaluate_retrieval_error)
  qed
  have D2: "\<forall>a e us q vs v.
      search_queries a = us @ q # vs \<and>
      (\<forall>u \<in> set us. \<exists>v hs. embed_query a u = Inr v \<and>
         search a v tid (retrieval_k (config a)) = Inr hs) \<and>
      embed_query a q = Inr v \<and> search a v tid (retrieval_k (config a)) = Inl e \<longrightarrow>
      evaluate a tid = Inl e"
  proof (intro allI impI, elim conjE)
    fix a :: Agent and e us q vs v
    assume q: "search_queries a = us @ q # vs"
      and us: "\<forall>u \<in> set us. \<exists>v hs. embed_query a u = Inr v \<and>
         search a v tid (retrieval_k (config a)) = Inr hs"
      and v: "embed_query a q = Inr v"
      and e: "search a v tid (retrieval_k (config a)) = Inl e"
    from search_all_search_error [OF us v e]
    have "search_all a tid (retrieval_k (config a)) (search_queries a) = Inl e"
      unfolding q .
    then show "evaluate a tid = Inl e" by (rule evaluate_retrieval_error)
  qed
  have D3: "\<forall>a e c. retrieve_context a tid (search_queries a) None = Inr c \<and> c \<noteq> [] \<and>
      invoke_llm a (evaluation_prompt a c tid) = Inl e \<longrightarrow>
      evaluate a tid = Inl e"
    by (auto simp: evaluate_def)
  have E1: "\<forall>e. evaluate na tid = Inl e \<longrightarrow>
      run_full_evaluation (runner_of na pa fa fmt) tid = Inl e"
    by (simp add: run_full_evaluation_propagates(1) runner_of_def)
  have E2: "\<forall>e n. evaluate na tid = Inr n \<and> evaluate pa tid = Inl e \<longrightarrow>
      run_full_evaluation (runner_of na pa fa fmt) tid = Inl e"
    by (auto intro: run_full_evaluation_propagates(2) simp: runner_of_def)
  have E3: "\<forall>e n p. evaluate na tid = Inr n \<and> evaluate pa tid = Inr p \<and>
      evaluate fa tid = Inl e \<longrightarrow>
      run_full_evaluation (runner_of na pa fa fmt) tid = Inl e"
    by (auto intro: run_full_evaluation_propagates(3) simp: runner_of_def)
  from A B1 B2 B3 B4 C1 C2 D1 D2 D3 E1 E2 E3 show ?thesis by (intro conjI)
qed

theorem run_full_evaluation_returns_unless_service_raises_witness:
  "(\<exists>res. run_full_evaluation
            (runner_of (sample_agent [sample_hit 0 1] (Inr (asc ''{}'')))
                       (sample_agent [] (Inr (asc ''{}'')))
                       (sample_agent [sample_hit 0 1] (Inr (asc ''no json'')))
                       sample_format) (asc ''T1'') = Inr res \<and>
          score (novelty (stage_1 res)) = PyInt 3 \<and>
          progressiveness (stage_1 res) = search_failed (sample_agent [] (Inr (asc ''{}''))) \<and>
          field_applicability (stage_2 res)
            = parse_failure (sample_agent [sample_hit 0 1] (Inr (asc ''no json'')))
                (asc ''no json'')) \<and>
   run_full_evaluation
     (runner_of (sample_agent [sample_hit 0 1] (Inl (ServiceError (asc ''down''))))
                (sample_agent [] (Inr (asc ''{}'')))
                (sample_agent [] (Inr (asc ''{}'')))
                sample_format) (asc ''T1'') = Inl (ServiceError (asc ''down'')) \<and>
   run_full_evaluation
     (runner_of (sample_agent [] (Inr (asc ''{}'')))
                ((sample_agent [sample_hit 0 1] (Inr (asc ''{}'')))
                   \<lparr> embed_query := (\<lambda>q. Inl (ServiceError (asc ''embed''))) \<rparr>)
                (sample_agent [] (Inr (asc ''{}'')))
                sample_format) (asc ''T1'') = Inl (ServiceError (asc ''embed'')) \<and>
   run_full_evaluation
     (runner_of (sample_agent [] (Inr (asc ''{}'')))
                (sample_agent [] (Inr (asc ''{}'')))
                ((sample_agent [sample_hit 0 1] (Inr (asc ''{}'')))
                   \<lparr> search := (\<lambda>v t k. Inl (ServiceError (asc ''store''))) \<rparr>)
                sample_format) (asc ''T1'') = Inl (ServiceError (asc ''store'')) \<and>
   OpenSearch_search (Some (\<lambda>q. Inl (ServiceError (asc ''down'')))) [1] (asc ''T1'') 10 = Inr []"
proof -
  let ?F = "(sample_agent [sample_hit 0 1] (Inr (asc ''{}'')))
              \<lparr> search := (\<lambda>v t k. Inl (ServiceError (asc ''store''))) \<rparr>"
  let ?t = "asc ''T1''"
  let ?A = "sample_agent [sample_hit 0 1] (Inr (asc ''{}''))"
  let ?B = "sample_agent [] (Inr (asc ''{}''))"
  let ?C = "sample_agent [sample_hit 0 1] (Inr (asc ''no json''))"
  let ?D = "sample_agent [sample_hit 0 1] (Inl (ServiceError (asc ''down'')))"
  let ?E = "?A\<lparr> embed_query := (\<lambda>q. Inl (ServiceError (asc ''embed''))) \<rparr>"
  have ok: "(\<forall>q. \<exists>v. embed_query (sample_agent hs (Inr r)) q = Inr v) \<and>
       (\<forall>v t k. \<exists>hs'. search (sample_agent hs (Inr r)) v t k = Inr hs') \<and>
       (\<forall>p. \<exists>resp. invoke_llm (sample_agent hs (Inr r)) p = Inr resp) \<and>
       (\<forall>s data c. json_loads (sample_agent hs (Inr r)) s = Some (JObj data) \<longrightarrow>
          map_of data (asc ''comments'') = Some c \<longrightarrow> sliceable c)" for hs r
    by (auto simp: sample_agent_def split: if_splits)
  have sc: "\<forall>s data x. json_loads (sample_agent hs r) s = Some (JObj data) \<longrightarrow>
       map_of data (asc ''score'') = Some (JNum x) \<longrightarrow> P x" for hs r P
    by (auto simp: sample_agent_def split: if_splits)
  have h: "(\<forall>a \<in> {?A, ?B, ?C}.
        (\<forall>q. \<exists>v. embed_query a q = Inr v) \<and>
        (\<forall>v t k. \<exists>hs. search a v t k = Inr hs) \<and>
        (\<forall>p. \<exists>resp. invoke_llm a p = Inr resp) \<and>
        (\<forall>s data c. json_loads a s = Some (JObj data) \<longrightarrow>
           map_of data (asc ''comments'') = Some c \<longrightarrow> sliceable c)) \<and>
     (\<forall>a \<in> {?A, ?B}. \<forall>s data x. json_loads a s = Some (JObj data) \<longrightarrow>
        map_of data (asc ''score'') = Some (JNum x) \<longrightarrow> to_float x \<noteq> Inl PyOverflowError) \<and>
     (\<forall>s data x. json_loads ?C s = Some (JObj data) \<longrightarrow>
        map_of data (asc ''score'') = Some (JNum x) \<longrightarrow>
        to_float (times_int x 10) \<noteq> Inl PyOverflowError)"
    using ok sc by blast
  note T1 = run_full_evaluation_returns_unless_service_raises
              [of ?A ?B ?C sample_format ?t]
  have "\<exists>res. run_full_evaluation (runner_of ?A ?B ?C sample_format) ?t = Inr res \<and>
          evaluate ?A ?t = Inr (novelty (stage_1 res)) \<and>
          evaluate ?B ?t = Inr (progressiveness (stage_1 res)) \<and>
          evaluate ?C ?t = Inr (field_applicability (stage_2 res))"
    using T1 [THEN conjunct1] h by (rule mp)
  then obtain res where
    res: "run_full_evaluation (runner_of ?A ?B ?C sample_format) ?t = Inr res"
      "evaluate ?A ?t = Inr (novelty (stage_1 res))"
      "evaluate ?B ?t = Inr (progressiveness (stage_1 res))"
      "evaluate ?C ?t = Inr (field_applicability (stage_2 res))"
    by blast
  have eA: "evaluate ?A ?t = Inr (parse_evaluation_response ?A (asc ''{}''))"
    by (simp add: evaluate_def retrieve_context_def selected_results_def effective_k_def
        sample_agent_def default_config_def py_slice_to_def slice_bound_def sort_by_score_def
        render_result_def Let_def)
  have eB: "evaluate ?B ?t = Inr (search_failed ?B)"
    by (simp add: evaluate_def retrieve_context_def selected_results_def effective_k_def
        sample_agent_def default_config_def py_slice_to_def slice_bound_def sort_by_score_def
        Let_def)
  have eC: "evaluate ?C ?t = Inr (parse_evaluation_response ?C (asc ''no json''))"
    by (simp add: evaluate_def retrieve_context_def selected_results_def effective_k_def
        sample_agent_def default_config_def py_slice_to_def slice_bound_def sort_by_score_def
        render_result_def Let_def)
  have xC: "extract_json (asc ''no json'') = None"
    by (simp add: extract_json_def fenced_json_def braced_json_def split_first.simps asc_def)
  from T1 have "\<forall>a resp.
      (\<forall>s data. extract_json resp = Some s \<longrightarrow> json_loads a s = Some (JObj data) \<longrightarrow>
         json_number (case map_of data (asc ''score'') of
                        None \<Rightarrow> JNum (PyInt 3) | Some v \<Rightarrow> v) = None) \<longrightarrow>
      parse_evaluation_response a resp = parse_failure a resp"
    by (elim conjE)
  then have "(\<forall>s data. extract_json (asc ''no json'') = Some s \<longrightarrow>
                   json_loads ?C s = Some (JObj data) \<longrightarrow>
                   json_number (case map_of data (asc ''score'') of
                                  None \<Rightarrow> JNum (PyInt 3) | Some v \<Rightarrow> v) = None) \<longrightarrow>
                parse_evaluation_response ?C (asc ''no json'') = parse_failure ?C (asc ''no json'')"
    by blast
  with xC have pC: "parse_evaluation_response ?C (asc ''no json'') = parse_failure ?C (asc ''no json'')"
    by simp
  have sA: "score (parse_evaluation_response ?A (asc ''{}'')) = PyInt 3"
    by (simp add: parse_evaluation_response_def extract_json_def fenced_json_def
        braced_json_def split_first.simps asc_def sample_agent_def json_number_def)
  from res eA eB eC pC sA
  have 1: "\<exists>res. run_full_evaluation (runner_of ?A ?B ?C sample_format) ?t = Inr res \<and>
          score (novelty (stage_1 res)) = PyInt 3 \<and>
          progressiveness (stage_1 res) = search_failed ?B \<and>
          field_applicability (stage_2 res) = parse_failure ?C (asc ''no json'')"
    by auto
  note T2 = run_full_evaluation_returns_unless_service_raises
              [of ?D ?B ?B sample_format ?t]
  have "\<exists>c. retrieve_context ?D ?t (search_queries ?D) None = Inr c \<and> c \<noteq> [] \<and>
          invoke_llm ?D (evaluation_prompt ?D c ?t) = Inl (ServiceError (asc ''down''))"
    by (simp add: retrieve_context_def selected_results_def effective_k_def
        sample_agent_def default_config_def py_slice_to_def slice_bound_def sort_by_score_def
        render_result_def Let_def)
  moreover from T2 have "\<forall>a e c. retrieve_context a ?t (search_queries a) None = Inr c \<and> c \<noteq> [] \<and>
      invoke_llm a (evaluation_prompt a c ?t) = Inl e \<longrightarrow> evaluate a ?t = Inl e"
    by (elim conjE)
  ultimately have "evaluate ?D ?t = Inl (ServiceError (asc ''down''))" by blast
  moreover from T2 have "\<forall>e. evaluate ?D ?t = Inl e \<longrightarrow>
      run_full_evaluation (runner_of ?D ?B ?B sample_format) ?t = Inl e"
    by (elim conjE)
  ultimately have 2: "run_full_evaluation (runner_of ?D ?B ?B sample_format) ?t
             = Inl (ServiceError (asc ''down''))"
    by blast
  note T3 = run_full_evaluation_returns_unless_service_raises
              [of ?B ?E ?B sample_format ?t]
  have "search_queries ?E = [] @ asc ''q1'' # [asc ''q2''] \<and>
        (\<forall>u \<in> set []. \<exists>v hs. embed_query ?E u = Inr v \<and>
           search ?E v ?t (retrieval_k (config ?E)) = Inr hs) \<and>
        embed_query ?E (asc ''q1'') = Inl (ServiceError (asc ''embed''))"
    by (simp add: sample_agent_def)
  moreover from T3 have "\<forall>a e us q vs.
      search_queries a = us @ q # vs \<and>
      (\<forall>u \<in> set us. \<exists>v hs. embed_query a u = Inr v \<and>
         search a v ?t (retrieval_k (config a)) = Inr hs) \<and>
      embed_query a q = Inl e \<longrightarrow>
      evaluate a ?t = Inl e"
    by (elim conjE)
  ultimately have "evaluate ?E ?t = Inl (ServiceError (asc ''embed''))" by blast
  moreover from T3 have "\<forall>e n. evaluate ?B ?t = Inr n \<and> evaluate ?E ?t = Inl e \<longrightarrow>
      run_full_evaluation (runner_of ?B ?E ?B sample_format) ?t = Inl e"
    by (elim conjE)
  ultimately have 3: "run_full_evaluation (runner_of ?B ?E ?B sample_format) ?t
             = Inl (ServiceError (asc ''embed''))"
    using eB by blast
  note T5 = run_full_evaluation_returns_unless_service_raises
              [of ?B ?B ?F sample_format ?t]
  have "search_queries ?F = [] @ asc ''q1'' # [asc ''q2''] \<and>
        (\<forall>u \<in> set []. \<exists>v hs. embed_query ?F u = Inr v \<and>
           search ?F v ?t (retrieval_k (config ?F)) = Inr hs) \<and>
        embed_query ?F (asc ''q1'') = Inr [1] \<and>
        search ?F [1] ?t (retrieval_k (config ?F)) = Inl (ServiceError (asc ''store''))"
    by (simp add: sample_agent_def)
  moreover from T5 have "\<forall>a e us q vs v.
      search_queries a = us @ q # vs \<and>
      (\<forall>u \<in> set us. \<exists>v hs. embed_query a u = Inr v \<and>
         search a v ?t (retrieval_k (config a)) = Inr hs) \<and>
      embed_query a q = Inr v \<and> search a v ?t (retrieval_k (config a)) = Inl e \<longrightarrow>
      evaluate a ?t = Inl e"
    by (elim conjE)
  ultimately have "evaluate ?F ?t = Inl (ServiceError (asc ''store''))" by blast
  moreover from T5 have "\<forall>e n p. evaluate ?B ?t = Inr n \<and> evaluate ?B ?t = Inr p \<and>
      evaluate ?F ?t = Inl e \<longrightarrow>
      run_full_evaluation (runner_of ?B ?B ?F sample_format) ?t = Inl e"
    by (elim conjE)
  ultimately have 5: "run_full_evaluation (runner_of ?B ?B ?F sample_format) ?t
             = Inl (ServiceError (asc ''store''))"
    using eB by blast
  from T1 have O: "\<forall>c v t k. (\<forall>q. \<exists>e. c q = Inl e) \<longrightarrow>
                     OpenSearch_search (Some c) v t k = Inr []"
    by (elim conjE)
  have 4: "OpenSearch_search (Some (\<lambda>q. Inl (ServiceError (asc ''down'')))) [1] ?t 10 = Inr []"
    by (rule O [rule_format]) simp
  from 1 2 3 5 4 show ?thesis by (intro conjI)
qed

text \<open>
  The judgment service of every criterion fails while retrieval finds a chunk: the error
  leaves \<open>run_full_evaluation\<close>; no outcome is returned.
\<close>

theorem judgment_error_propagates_counterexample:
  "run_full_evaluation
     (runner_of (sample_agent [sample_hit 0 1] (Inl (ServiceError (asc ''down''))))
                (sample_agent [sample_hit 0 1] (Inl (ServiceError (asc ''down''))))
                (sample_agent [sample_hit 0 1] (Inl (ServiceError (asc ''down''))))
                sample_format) (asc ''T1'') = Inl (ServiceError (asc ''down''))"
  by (simp add: run_full_evaluation_def run_stage_1_def runner_of_def
        evaluate_def retrieve_context_def selected_results_def effective_k_def
        sample_agent_def default_config_def py_slice_to_def slice_bound_def sort_by_score_def
        render_result_def Let_def)

section \<open>Chunking with a stride that is not positive\<close>

text \<open>
  C3 (amended). For every configuration in which overlap \<open>\<ge>\<close> chunk size the
  sliding-window chunking walks no window and does not loop: when the overlap equals the
  chunk size the chunking call fails with a \<open>ValueError\<close> (the chunker's setup checks
  nothing, the zero stride is refused when the document is chunked), and when the overlap
  exceeds the chunk size the call returns the empty chunk list without an error.
\<close>

theorem chunk_document_nonpositive_stride:
  assumes "chunk_overlap cfg \<ge> chunk_size cfg"
  shows "chunk_document (DocumentChunker_init cfg) document =
           (if chunk_overlap cfg = chunk_size cfg then Inl PyValueError else Inr [])"
  using assms
  by (simp add: chunk_document_def chunk_pages_def DocumentChunker_init_def py_range0_def
      split: prod.splits)

theorem chunk_document_nonpositive_stride_witness:
  "chunk_overlap \<lparr> chunk_size = 2, chunk_overlap = 2, retrieval_k = 10 \<rparr>
     \<ge> chunk_size \<lparr> chunk_size = 2, chunk_overlap = 2, retrieval_k = 10 \<rparr> \<and>
   chunk_document (DocumentChunker_init \<lparr> chunk_size = 2, chunk_overlap = 2, retrieval_k = 10 \<rparr>)
     (sample_document (asc ''abc'')) = Inl PyValueError"
  using chunk_document_nonpositive_stride
    [of "\<lparr> chunk_size = 2, chunk_overlap = 2, retrieval_k = 10 \<rparr>" "sample_document (asc ''abc'')"]
  by simp

text \<open>
  With overlap 3 and chunk size 2 a document with text is chunked into the empty list; no
  error is reported.
\<close>

theorem chunk_document_silent_empty_counterexample:
  "chunk_document (DocumentChunker_init \<lparr> chunk_size = 2, chunk_overlap = 3, retrieval_k = 10 \<rparr>)
     (sample_document (asc ''abc'')) = Inr []"
  by (simp add: chunk_document_def chunk_pages_def DocumentChunker_init_def py_range0_def
      split: prod.splits)

section \<open>Indexing embedded chunks\<close>

lemma bulk_body_append: "bulk_body (xs @ ys) = bulk_body xs @ bulk_body ys"
  by (simp add: bulk_body_def)

lemma bulk_body_concat: "bulk_body (concat xss) = concat (map bulk_body xss)"
  by (induction xss) (simp_all add: bulk_body_append, simp add: bulk_body_def)

lemma index_batches_upsert:
  "index_batches upsert_bulk docs bs starts c idx = (n, idx') \<Longrightarrow>
   idx' = fold store_doc (bulk_body (concat (map (\<lambda>i. py_slice docs i (i + bs)) starts))) idx \<and>
   c \<le> n \<and> n \<le> c + int (length (concat (map (\<lambda>i. py_slice docs i (i + bs)) starts)))"
proof (induction starts arbitrary: c idx)
  case Nil
  then show ?case by (simp add: bulk_body_def)
next
  case (Cons i starts)
  let ?batch = "py_slice docs i (i + bs)"
  show ?case
  proof (cases "bulk_body ?batch = []")
    case True
    with Cons.prems have "index_batches upsert_bulk docs bs starts c idx = (n, idx')"
      by (simp add: Let_def)
    from Cons.IH [OF this] True show ?thesis by (simp add: bulk_body_append)
  next
    case False
    then have "index_batches upsert_bulk docs bs (i # starts) c idx
        = index_batches upsert_bulk docs bs starts (c + int (length ?batch))
            (fold store_doc (bulk_body ?batch) idx)"
      by (simp add: Let_def upsert_bulk_def)
    with Cons.prems have
      "index_batches upsert_bulk docs bs starts (c + int (length ?batch))
         (fold store_doc (bulk_body ?batch) idx) = (n, idx')"
      by simp
    from Cons.IH [OF this] show ?thesis by (simp add: bulk_body_append)
  qed
qed

lemma py_slice_window:
  "0 \<le> i \<Longrightarrow> 0 \<le> b \<Longrightarrow> py_slice xs i (i + b) = take (nat b) (drop (nat i) xs)"
  by (auto simp: py_slice_def slice_bound_def Let_def min_def nat_add_distrib)

lemma concat_windows: "concat (map (\<lambda>j. take B (drop (j * B) xs)) [0 ..< m]) = take (m * B) xs"
proof (induction m)
  case 0
  then show ?case by simp
next
  case (Suc m)
  have "take (m * B + B) xs = take (m * B) xs @ take B (drop (m * B) xs)"
    by (simp add: take_add)
  with Suc show ?case by (simp add: add.commute)
qed

lemma range_batches_concat:
  assumes "bs > 0" and "py_range0 (int (length xs)) bs = Inr starts"
  shows "concat (map (\<lambda>i. py_slice xs i (i + bs)) starts) = xs"
proof -
  let ?m = "nat ((int (length xs) + bs - 1) div bs)"
  let ?B = "nat bs"
  from assms have starts: "starts = map (\<lambda>j. int j * bs) [0 ..< ?m]"
    by (simp add: py_range0_def)
  have "py_slice xs (int j * bs) (int j * bs + bs) = take ?B (drop (j * ?B) xs)" for j
    using assms(1) py_slice_window [of "int j * bs" bs xs] by (simp add: nat_mult_distrib)
  then have "concat (map (\<lambda>i. py_slice xs i (i + bs)) starts) = take (?m * ?B) xs"
    unfolding starts by (simp add: comp_def concat_windows)
  moreover have "length xs \<le> ?m * ?B"
  proof -
    have "int (length xs) \<le> ((int (length xs) + bs - 1) div bs) * bs"
    proof -
      have "(int (length xs) + bs - 1) mod bs \<le> bs - 1" using assms(1) by simp
      moreover have "int (length xs) + bs - 1
        = ((int (length xs) + bs - 1) div bs) * bs + (int (length xs) + bs - 1) mod bs"
        by simp
      ultimately show ?thesis by linarith
    qed
    moreover have "0 \<le> (int (length xs) + bs - 1) div bs"
      using assms(1) by (simp add: pos_imp_zdiv_nonneg_iff)
    ultimately have "int (length xs) \<le> int (?m * ?B)"
      using assms(1) by simp
    then show ?thesis by linarith
  qed
  ultimately show ?thesis by simp
qed

lemma fold_upsert_lookup:
  "fold store_doc (map (\<lambda>d. (key d, d)) xs) idx k =
     (case filter (\<lambda>d. key d = k) (rev xs) of [] \<Rightarrow> idx k | d # _ \<Rightarrow> Some d)"
proof (induction xs arbitrary: idx)
  case Nil
  then show ?case by simp
next
  case (Cons x xs)
  have "fold store_doc (map (\<lambda>d. (key d, d)) (x # xs)) idx k
        = fold store_doc (map (\<lambda>d. (key d, d)) xs) (store_doc (key x, x) idx) k"
    by simp
  also have "\<dots> = (case filter (\<lambda>d. key d = k) (rev xs) of
                      [] \<Rightarrow> store_doc (key x, x) idx k | d # _ \<Rightarrow> Some d)"
    by (rule Cons.IH)
  also have "\<dots> = (case filter (\<lambda>d. key d = k) (rev (x # xs)) of
                      [] \<Rightarrow> idx k | d # _ \<Rightarrow> Some d)"
    by (cases "filter (\<lambda>d. key d = k) (rev xs)") (auto simp: store_doc_def)
  finally show ?case .
qed

lemma bulk_body_lookup:
  "fold store_doc (bulk_body docs) idx (doc_key t i) =
     (case filter (\<lambda>d. \<not> no_embedding d \<and> d_tech_id d = t \<and> d_chunk_index d = i) (rev docs) of
        [] \<Rightarrow> idx (doc_key t i) | d # _ \<Rightarrow> Some d)"
proof -
  let ?key = "\<lambda>d. doc_key (d_tech_id d) (d_chunk_index d)"
  let ?valid = "filter (\<lambda>doc. \<not> no_embedding doc) docs"
  have "filter (\<lambda>d. ?key d = doc_key t i) (rev ?valid)
        = filter (\<lambda>d. \<not> no_embedding d \<and> d_tech_id d = t \<and> d_chunk_index d = i) (rev docs)"
    by (simp add: rev_filter [symmetric] doc_key_inj conj_commute cong: conj_cong)
  then show ?thesis
    using fold_upsert_lookup [of ?key ?valid idx "doc_key t i"] by (simp add: bulk_body_def)
qed

lemma fold_upsert_idempotent:
  "fold store_doc (map (\<lambda>d. (key d, d)) xs) (fold store_doc (map (\<lambda>d. (key d, d)) xs) idx)
     = fold store_doc (map (\<lambda>d. (key d, d)) xs) idx"
  by (rule ext) (simp add: fold_upsert_lookup split: list.splits)

lemma fold_upsert_other:
  "k \<notin> fst ` set body \<Longrightarrow> fold store_doc body idx k = idx k"
  by (induction body arbitrary: idx) (auto simp: store_doc_def)

text \<open>
  C4 (amended). For every list of embedded-chunk records, the OpenSearch index operation
  (with a positive batch size and a service that applies the bulk request) writes exactly
  the records whose vector is not empty or missing, each under the id of its (submission
  id, chunk index): after the call the entry of a key is the last such record of the list
  with that key, and every other entry is unchanged, so re-indexing records with the same
  keys overwrites and indexing the same list again leaves index and count as they are. The
  returned count never exceeds the number of input records. The in-memory
  \<open>LocalVectorStore\<close> appends every record it is given and returns the number of input
  records.
\<close>

theorem opensearch_index_skips_and_overwrites:
  assumes "batch_size > 0"
    and "OpenSearch_index_documents (Some upsert_bulk) docs batch_size idx = Inr (n, idx')"
  shows "(\<forall>t i. idx' (doc_key t i) =
            (case filter (\<lambda>d. \<not> no_embedding d \<and> d_tech_id d = t \<and> d_chunk_index d = i)
                    (rev docs) of
               [] \<Rightarrow> idx (doc_key t i)
             | d # _ \<Rightarrow> Some d)) \<and>
         (\<forall>k. k \<notin> (\<lambda>d. doc_key (d_tech_id d) (d_chunk_index d)) `
                    {d \<in> set docs. \<not> no_embedding d} \<longrightarrow> idx' k = idx k) \<and>
         OpenSearch_index_documents (Some upsert_bulk) docs batch_size idx' = Inr (n, idx') \<and>
         0 \<le> n \<and> n \<le> int (length docs) \<and>
         Local_index_documents docs store = (int (length docs), store @ docs)"
proof -
  from assms(1) obtain starts where
    starts: "py_range0 (int (length docs)) batch_size = Inr starts"
    by (auto simp: py_range0_def)
  have cc: "concat (map (\<lambda>i. py_slice docs i (i + batch_size)) starts) = docs"
    using assms(1) starts by (rule range_batches_concat)
  from assms(2) starts have
    ib: "index_batches upsert_bulk docs batch_size starts 0 idx = (n, idx')"
    by (simp add: OpenSearch_index_documents_def)
  from index_batches_upsert [OF ib] cc have
    idx': "idx' = fold store_doc (bulk_body docs) idx" and n: "0 \<le> n" "n \<le> int (length docs)"
    by simp_all
  have a: "\<forall>t i. idx' (doc_key t i) =
            (case filter (\<lambda>d. \<not> no_embedding d \<and> d_tech_id d = t \<and> d_chunk_index d = i)
                    (rev docs) of
               [] \<Rightarrow> idx (doc_key t i)
             | d # _ \<Rightarrow> Some d)"
    unfolding idx' by (simp add: bulk_body_lookup)
  have b: "\<forall>k. k \<notin> (\<lambda>d. doc_key (d_tech_id d) (d_chunk_index d)) `
                    {d \<in> set docs. \<not> no_embedding d} \<longrightarrow> idx' k = idx k"
  proof (intro allI impI)
    fix k
    assume "k \<notin> (\<lambda>d. doc_key (d_tech_id d) (d_chunk_index d)) ` {d \<in> set docs. \<not> no_embedding d}"
    then have "k \<notin> fst ` set (bulk_body docs)"
      by (auto simp: bulk_body_def image_iff)
    then show "idx' k = idx k" unfolding idx' by (rule fold_upsert_other)
  qed
  have again: "fold store_doc (bulk_body docs) idx' = idx'"
    unfolding idx' bulk_body_def by (rule fold_upsert_idempotent)
  obtain m idx'' where
    ib2: "index_batches upsert_bulk docs batch_size starts 0 idx' = (m, idx'')"
    by (cases "index_batches upsert_bulk docs batch_size starts 0 idx'")
  from index_batches_upsert [OF ib2] cc again have i2: "idx'' = idx'" by simp
  have cnt: "fst (index_batches upsert_bulk docs batch_size starts c i1)
             = fst (index_batches upsert_bulk docs batch_size starts c i2)" for c i1 i2
  proof (induction starts arbitrary: c i1 i2)
    case Nil
    then show ?case by simp
  next
    case (Cons s starts)
    show ?case
      using Cons.IH by (simp add: Let_def upsert_bulk_def)
  qed
  from cnt [of 0 idx idx'] ib ib2 have "m = n" by simp
  with ib2 i2 starts have c:
    "OpenSearch_index_documents (Some upsert_bulk) docs batch_size idx' = Inr (n, idx')"
    by (simp add: OpenSearch_index_documents_def)
  have d: "Local_index_documents docs store = (int (length docs), store @ docs)"
    by (simp add: Local_index_documents_def)
  from a b c n d show ?thesis by blast
qed

theorem opensearch_index_skips_and_overwrites_witness:
  "(100::int) > 0 \<and>
   (\<exists>n idx'. OpenSearch_index_documents (Some upsert_bulk)
                [sample_doc 0 [1], sample_doc 1 [], sample_doc 0 [2]] 100 Map.empty
                = Inr (n, idx') \<and>
              idx' (doc_key (asc ''T1'') 0) = Some (sample_doc 0 [2]) \<and>
              idx' (doc_key (asc ''T1'') 1) = None)"
proof -
  let ?docs = "[sample_doc 0 [1], sample_doc 1 [], sample_doc 0 [2]]"
  have "\<exists>p. OpenSearch_index_documents (Some upsert_bulk) ?docs 100 Map.empty = Inr p"
    by (simp add: OpenSearch_index_documents_def py_range0_def)
  then obtain n idx' where
    h: "OpenSearch_index_documents (Some upsert_bulk) ?docs 100 Map.empty = Inr (n, idx')"
    by force
  have p: "(100::int) > 0" by simp
  note t = opensearch_index_skips_and_overwrites [OF p h]
  from t have "idx' (doc_key (asc ''T1'') 0) =
            (case filter (\<lambda>d. \<not> no_embedding d \<and> d_tech_id d = asc ''T1'' \<and> d_chunk_index d = 0)
                    (rev ?docs) of
               [] \<Rightarrow> Map.empty (doc_key (asc ''T1'') 0)
             | d # _ \<Rightarrow> Some d)" by blast
  then have a: "idx' (doc_key (asc ''T1'') 0) = Some (sample_doc 0 [2])"
    by (simp add: sample_doc_def no_embedding_def)
  from t have "idx' (doc_key (asc ''T1'') 1) =
            (case filter (\<lambda>d. \<not> no_embedding d \<and> d_tech_id d = asc ''T1'' \<and> d_chunk_index d = 1)
                    (rev ?docs) of
               [] \<Rightarrow> Map.empty (doc_key (asc ''T1'') 1)
             | d # _ \<Rightarrow> Some d)" by blast
  then have b: "idx' (doc_key (asc ''T1'') 1) = None"
    by (simp add: sample_doc_def no_embedding_def)
  from p h a b show ?thesis by blast
qed

text \<open>
  The in-memory store keeps and counts a record whose vector is empty, and indexing a
  record that is already stored duplicates it.
\<close>

theorem local_store_keeps_all_counterexample:
  "no_embedding (sample_doc 0 []) \<and>
   Local_index_documents [sample_doc 0 []] [] = (1, [sample_doc 0 []]) \<and>
   Local_index_documents [sample_doc 1 [1]] [sample_doc 1 [1]]
     = (1, [sample_doc 1 [1], sample_doc 1 [1]])"
  by (simp add: Local_index_documents_def no_embedding_def sample_doc_def)

text \<open>
  The count of the OpenSearch store adds the length of every batch that was sent, not the
  number of records in it: a batch of one record with a vector and one without counts 2.
\<close>

lemma opensearch_count_includes_skipped:
  "map_sum id fst
     (OpenSearch_index_documents (Some upsert_bulk) [sample_doc 0 [1], sample_doc 1 []] 100
        Map.empty) = Inr 2 \<and>
   length (bulk_body [sample_doc 0 [1], sample_doc 1 []]) = 1"
  by (simp add: OpenSearch_index_documents_def py_range0_def py_slice_def slice_bound_def
      Let_def bulk_body_def no_embedding_def sample_doc_def upsert_bulk_def)

lemma selected_results_Inr:
  assumes "selected_results ag tid queries k = Inr shown"
  obtains pool where
    "search_all ag tid (effective_k ag k) queries = Inr pool"
    "shown = py_slice_to (sort_by_score (dedup [] pool)) (effective_k ag k * int (length queries))"
  using assms unfolding selected_results_def Let_def by (auto split: sum.splits)

lemma join_nil_iff: "(\<forall>p \<in> set ps. p \<noteq> []) \<Longrightarrow> join sep ps = [] \<longleftrightarrow> ps = []"
  by (induction sep ps rule: join.induct) auto

lemma render_result_nonempty: "render_result i r \<noteq> []"
  by (simp add: render_result_def)

lemma retrieve_context_empty_iff:
  "retrieve_context ag tid queries k = Inr [] \<longleftrightarrow> selected_results ag tid queries k = Inr []"
proof -
  have "join [10, 45, 45, 45, 10] (map (\<lambda>(i, r). render_result i r) (zip [0 ..< length shown] shown)) = []
        \<longleftrightarrow> shown = []" for shown :: "Hit list"
  proof -
    have "\<forall>p \<in> set (map (\<lambda>(i, r). render_result i r) (zip [0 ..< length shown] shown)). p \<noteq> []"
      by (auto simp: render_result_nonempty)
    from join_nil_iff [OF this] show ?thesis by (cases shown) (auto simp: upt_conv_Cons)
  qed
  then show ?thesis
    by (auto simp: retrieve_context_def split: sum.splits)
qed

text \<open>
  C5 (amended). For every submission id, list of queries and \<open>k \<ge> 1\<close>, the results
  rendered into the evidence context satisfy: each key (submission id, chunk index)
  appears at most once and the result kept for a key is the first one seen in the pool;
  the results are in descending order of relevance score, and results of equal score keep
  the order in which they were first seen; at most \<open>k\<close> times the number of queries
  results are rendered; and an empty pool gives the empty string. (A \<open>k\<close> of zero is
  replaced by the configured \<open>retrieval_k\<close>.)
\<close>

theorem retrieval_selection:
  assumes sel: "selected_results ag tid queries (Some k) = Inr shown"
    and k: "k \<ge> 1"
  shows "distinct (map hit_key shown) \<and>
         sorted_wrt (\<lambda>a b. hit_score a \<ge> hit_score b) shown \<and>
         (\<exists>pool. search_all ag tid k queries = Inr pool \<and>
            (\<forall>r \<in> set shown. find (\<lambda>x. hit_key x = hit_key r) pool = Some r) \<and>
            (\<forall>s. prefix (filter (\<lambda>r. hit_score r = s) shown)
                         (filter (\<lambda>r. hit_score r = s) (dedup [] pool))) \<and>
            (pool = [] \<longrightarrow> retrieve_context ag tid queries (Some k) = Inr [])) \<and>
         length shown \<le> nat k * length queries \<and>
         retrieve_context ag tid queries (Some k) =
           Inr (join [10, 45, 45, 45, 10]
                  (map (\<lambda>(i, r). render_result i r) (zip [0 ..< length shown] shown)))"
proof -
  from k have ek: "effective_k ag (Some k) = k" by (simp add: effective_k_def)
  from sel obtain pool where
    pool: "search_all ag tid k queries = Inr pool"
    and shown: "shown = py_slice_to (sort_by_score (dedup [] pool)) (k * int (length queries))"
    using ek by (metis selected_results_Inr)
  let ?n = "slice_bound (length (sort_by_score (dedup [] pool))) (k * int (length queries))"
  have shown_take: "shown = take ?n (sort_by_score (dedup [] pool))"
    using shown by (simp add: py_slice_to_def)
  have d: "distinct (map hit_key shown)"
    unfolding shown_take
    using dedup_distinct [of "[]" pool]
    by (simp add: sort_by_score_def distinct_map_sort_key take_map [symmetric] del: take_map)
  have s: "sorted_wrt (\<lambda>a b. hit_score a \<ge> hit_score b) shown"
    unfolding shown_take using sorted_by_score [of "dedup [] pool"]
    by (rule sorted_wrt_take)
  have sub: "set shown \<subseteq> set (dedup [] pool)"
    unfolding shown_take using set_take_subset [of ?n "sort_by_score (dedup [] pool)"]
    by (simp add: sort_by_score_def)
  have f: "\<forall>r \<in> set shown. find (\<lambda>x. hit_key x = hit_key r) pool = Some r"
    using sub dedup_first_seen by blast
  have t: "\<forall>s. prefix (filter (\<lambda>r. hit_score r = s) shown)
                      (filter (\<lambda>r. hit_score r = s) (dedup [] pool))"
  proof
    fix s
    have "prefix (filter (\<lambda>r. hit_score r = s) (take ?n (sort_by_score (dedup [] pool))))
                 (filter (\<lambda>r. hit_score r = s) (sort_by_score (dedup [] pool)))"
      by (rule filter_take_prefix)
    then show "prefix (filter (\<lambda>r. hit_score r = s) shown)
                      (filter (\<lambda>r. hit_score r = s) (dedup [] pool))"
      by (simp only: sort_by_score_stable shown_take [symmetric])
  qed
  have "0 \<le> k * int (length queries)" using k by simp
  then have "?n \<le> nat (k * int (length queries))" by (rule slice_bound_nonneg)
  then have l: "length shown \<le> nat k * length queries"
    unfolding shown_take using k by (simp add: nat_mult_distrib)
  have c: "retrieve_context ag tid queries (Some k) =
           Inr (join [10, 45, 45, 45, 10]
                  (map (\<lambda>(i, r). render_result i r) (zip [0 ..< length shown] shown)))"
    using sel by (simp add: retrieve_context_def)
  have e: "pool = [] \<longrightarrow> retrieve_context ag tid queries (Some k) = Inr []"
    using shown c by (auto simp: py_slice_to_def sort_by_score_def)
  from d s pool f t e l c show ?thesis by blast
qed

theorem retrieval_selection_witness:
  "selected_results
     (sample_agent [sample_hit 0 (1 / 2), sample_hit 1 (1 / 2)] (Inr []))
     (asc ''T1'') [asc ''q1'', asc ''q2''] (Some 1)
     = Inr [sample_hit 0 (1 / 2), sample_hit 1 (1 / 2)] \<and>
   (1::int) \<ge> 1 \<and>
   distinct (map hit_key [sample_hit 0 (1 / 2), sample_hit 1 (1 / 2)]) \<and>
   length [sample_hit 0 (1 / 2), sample_hit 1 (1 / 2)] \<le> nat 1 * length [asc ''q1'', asc ''q2'']"
proof -
  have sel: "selected_results
     (sample_agent [sample_hit 0 (1 / 2), sample_hit 1 (1 / 2)] (Inr []))
     (asc ''T1'') [asc ''q1'', asc ''q2''] (Some 1)
     = Inr [sample_hit 0 (1 / 2), sample_hit 1 (1 / 2)]"
    by (simp add: selected_results_def effective_k_def sample_agent_def default_config_def
        py_slice_to_def slice_bound_def sort_by_score_def doc_key_def Let_def
        sample_hit_def str_int_def digits_of.simps asc_def)
  have k: "(1::int) \<ge> 1" by simp
  from retrieval_selection [OF sel k] sel k show ?thesis by blast
qed

text \<open>
  With \<open>k = 0\<close> the configured \<open>retrieval_k\<close> (10) is used instead: one result is
  rendered although \<open>k\<close> times the number of queries is 0.
\<close>

theorem retrieval_k_zero_counterexample:
  "selected_results (sample_agent [sample_hit 0 1] (Inr [])) (asc ''T1'')
     [asc ''q1''] (Some 0) = Inr [sample_hit 0 1] \<and>
   \<not> int (length [sample_hit 0 1]) \<le> 0 * int (length [asc ''q1''])"
  by (simp add: selected_results_def effective_k_def sample_agent_def default_config_def
      py_slice_to_def slice_bound_def sort_by_score_def doc_key_def Let_def)

section \<open>Sliding-window coverage and overlap\<close>

lemma strip_empty_iff: "strip s = [] \<longleftrightarrow> (\<forall>c \<in> set s. py_isspace c)"
proof -
  have "(\<forall>x \<in> set (dropWhile py_isspace s). py_isspace x) \<longleftrightarrow> dropWhile py_isspace s = []"
    using hd_dropWhile [of py_isspace s]
    by (cases "dropWhile py_isspace s") (auto dest: set_dropWhileD)
  thus ?thesis
    by (simp add: strip_def lstrip_def rstrip_def dropWhile_eq_Nil_conv)
qed

lemma py_range0_pos:
  "0 < step \<Longrightarrow>
   py_range0 stop step = Inr (map (\<lambda>j. int j * step) [0 ..< nat ((stop + step - 1) div step)])"
  by (simp add: py_range0_def)

lemma mult_le_div_iff:
  assumes "0 < (step::int)"
  shows "k * step \<le> x \<longleftrightarrow> k \<le> x div step"
proof
  assume "k * step \<le> x"
  hence "(k * step) div step \<le> x div step" using assms by (rule zdiv_mono1)
  thus "k \<le> x div step" using assms by simp
next
  assume "k \<le> x div step"
  hence "k * step \<le> (x div step) * step" using assms by (simp add: mult_right_mono)
  moreover have "0 \<le> x mod step" using assms by simp
  moreover have "x div step * step + x mod step = x" by simp
  ultimately show "k * step \<le> x" by linarith
qed

lemma range_count:
  assumes "0 < step"
  shows "j < nat ((stop + step - 1) div step) \<longleftrightarrow> int j * step < stop"
proof -
  have "int j * step < stop \<longleftrightarrow> int j * step \<le> stop - 1" by auto
  also have "\<dots> \<longleftrightarrow> int j \<le> (stop - 1) div step"
    using assms by (rule mult_le_div_iff)
  also have "(stop - 1) div step = (stop + step - 1) div step - 1"
  proof -
    have e: "((stop - 1) + step) div step = (stop - 1) div step + 1"
      by (rule div_add_self2) (use assms in simp)
    have "stop + step - 1 = (stop - 1) + step" by simp
    hence "(stop + step - 1) div step = ((stop - 1) + step) div step" by (simp only:)
    with e show ?thesis by linarith
  qed
  finally show ?thesis by auto
qed

lemma py_slice_clip: "py_slice xs a (min b (int (length xs))) = py_slice xs a b"
  by (auto simp: py_slice_def slice_bound_def Let_def min_def)

lemma py_slice_mem:
  assumes "0 \<le> a" "a \<le> p" "p < b" "p < int (length xs)"
  shows "xs ! nat p \<in> set (py_slice xs a b)"
proof -
  let ?lo = "slice_bound (length xs) a" and ?hi = "slice_bound (length xs) b"
  have lo: "?lo = nat a" using assms by (auto simp: slice_bound_def)
  have hi: "nat p < ?hi" using assms by (auto simp: slice_bound_def)
  have "nat p - ?lo < length (take (?hi - ?lo) (drop ?lo xs))"
    using assms lo hi by auto
  moreover have "take (?hi - ?lo) (drop ?lo xs) ! (nat p - ?lo) = xs ! nat p"
    using assms lo hi by auto
  ultimately show ?thesis
    unfolding py_slice_def Let_def by (metis nth_mem)
qed

lemma window_loop_contents:
  "map content (window_loop ch tid fname buf pp starts idx) =
     map (\<lambda>i. strip (py_slice buf i (i + dc_chunk_size ch)))
       (filter (\<lambda>i. strip (py_slice buf i (i + dc_chunk_size ch)) \<noteq> []) starts)"
  by (induction starts arbitrary: idx) (simp_all add: Let_def)


lemma walked_windows_length:
  assumes "dc_chunk_overlap ch < dc_chunk_size ch"
  shows "k < length (walked_windows ch buf) \<longleftrightarrow>
           int k * (dc_chunk_size ch - dc_chunk_overlap ch) < int (length buf)"
  using assms range_count [of "dc_chunk_size ch - dc_chunk_overlap ch" k "int (length buf)"]
  by (simp add: walked_windows_def py_range0_pos)

lemma walked_windows_nth:
  assumes "dc_chunk_overlap ch < dc_chunk_size ch" and "k < length (walked_windows ch buf)"
  shows "walked_windows ch buf ! k =
           (int k * (dc_chunk_size ch - dc_chunk_overlap ch),
            min (int k * (dc_chunk_size ch - dc_chunk_overlap ch) + dc_chunk_size ch)
                (int (length buf)))"
  using assms by (simp add: walked_windows_def py_range0_pos window_of_def)

lemma emitted_windows_filter:
  "emitted_windows ch buf =
     filter (\<lambda>w. strip (py_slice buf (fst w) (snd w)) \<noteq> []) (walked_windows ch buf)"
  by (simp add: emitted_windows_def walked_windows_def filter_map comp_def window_of_def
      py_slice_clip split: sum.splits)

lemma chunk_document_contents:
  assumes "dc_chunk_overlap ch < dc_chunk_size ch"
  shows "\<exists>cs. chunk_document ch document = Inr cs \<and>
           map content cs =
             map (\<lambda>w. strip (py_slice (combined_text_of document) (fst w) (snd w)))
               (emitted_windows ch (combined_text_of document))"
  using assms
  by (simp add: chunk_document_def chunk_pages_def combined_text_of_def emitted_windows_def
      Let_def split_beta py_range0_pos window_loop_contents comp_def window_of_def py_slice_clip)

lemma walked_windows_cover:
  assumes "0 \<le> dc_chunk_overlap ch" and "dc_chunk_overlap ch < dc_chunk_size ch"
    and "0 \<le> p" and "p < int (length buf)"
  shows "\<exists>k < length (walked_windows ch buf).
           0 \<le> fst (walked_windows ch buf ! k) \<and> fst (walked_windows ch buf ! k) \<le> p \<and>
           p < snd (walked_windows ch buf ! k)"
proof -
  define stride where "stride = dc_chunk_size ch - dc_chunk_overlap ch"
  define k where "k = nat (p div stride)"
  have pos: "0 < stride" using assms by (simp add: stride_def)
  have "0 \<le> p div stride" using pos assms(3) by (simp add: pos_imp_zdiv_nonneg_iff)
  hence k: "int k = p div stride" by (simp add: k_def)
  have "0 \<le> p mod stride" and "p mod stride < stride" using pos by simp_all
  moreover have "p = p div stride * stride + p mod stride" by simp
  ultimately have lo: "int k * stride \<le> p" and hi: "p < int k * stride + stride"
    unfolding k by linarith+
  have len: "k < length (walked_windows ch buf)"
    using lo assms(2,4) by (simp add: walked_windows_length stride_def)
  have "walked_windows ch buf ! k =
          (int k * stride, min (int k * stride + dc_chunk_size ch) (int (length buf)))"
    using walked_windows_nth [OF assms(2) len] by (simp add: stride_def)
  moreover have "p < int k * stride + dc_chunk_size ch"
    using hi assms(1) by (simp add: stride_def)
  moreover have "0 \<le> int k * stride" using pos by simp
  ultimately show ?thesis using len lo assms(4) by auto
qed

lemma covered_nth: "k < length ws \<Longrightarrow> fst (ws ! k) \<le> p \<Longrightarrow> p < snd (ws ! k) \<Longrightarrow> covered ws p"
  unfolding covered_def list_ex_iff by (metis (mono_tags, lifting) case_prod_beta nth_mem)

lemma emitted_windows_cover:
  assumes "0 \<le> dc_chunk_overlap ch" and "dc_chunk_overlap ch < dc_chunk_size ch"
    and "0 \<le> p" and "p < int (length buf)" and "\<not> py_isspace (buf ! nat p)"
  shows "covered (emitted_windows ch buf) p"
proof -
  from walked_windows_cover [OF assms(1-4)]
  obtain k where k: "k < length (walked_windows ch buf)"
    and a: "0 \<le> fst (walked_windows ch buf ! k)"
    and lo: "fst (walked_windows ch buf ! k) \<le> p"
    and hi: "p < snd (walked_windows ch buf ! k)" by blast
  let ?w = "walked_windows ch buf ! k"
  have "buf ! nat p \<in> set (py_slice buf (fst ?w) (snd ?w))"
    using a lo hi assms(4) by (rule py_slice_mem)
  hence "strip (py_slice buf (fst ?w) (snd ?w)) \<noteq> []"
    using assms(5) by (auto simp: strip_empty_iff)
  hence "?w \<in> set (emitted_windows ch buf)"
    using k by (simp add: emitted_windows_filter)
  thus ?thesis using lo hi
    unfolding covered_def list_ex_iff by (auto simp: case_prod_beta)
qed

lemma walked_overlap_full:
  assumes "0 \<le> dc_chunk_overlap ch" and "dc_chunk_overlap ch < dc_chunk_size ch"
    and "Suc k < length (walked_windows ch buf)"
    and "snd (walked_windows ch buf ! k) - fst (walked_windows ch buf ! k) = dc_chunk_size ch"
  shows "range_overlap (walked_windows ch buf ! k) (walked_windows ch buf ! Suc k)
           = dc_chunk_overlap ch"
proof -
  define stride where "stride = dc_chunk_size ch - dc_chunk_overlap ch"
  define a where "a = int k * stride"
  have s: "int (Suc k) * stride = a + stride" by (simp add: a_def algebra_simps)
  have k: "k < length (walked_windows ch buf)" using assms(3) by simp
  have w: "walked_windows ch buf ! k = (a, min (a + dc_chunk_size ch) (int (length buf)))"
    using walked_windows_nth [OF assms(2) k] by (simp add: a_def stride_def)
  have v: "walked_windows ch buf ! Suc k =
             (a + stride, min (a + stride + dc_chunk_size ch) (int (length buf)))"
    using walked_windows_nth [OF assms(2,3)] s by (simp only: stride_def)
  have "a + stride < int (length buf)"
    using assms(2,3) s by (simp only: walked_windows_length stride_def)
  thus ?thesis using assms(1,2,4) unfolding w v range_overlap_def stride_def
    by (simp add: min_def max_def split: if_splits)
qed

lemma walked_full_before_last:
  assumes "0 \<le> dc_chunk_overlap ch" and "dc_chunk_overlap ch < dc_chunk_size ch"
    and "2 * dc_chunk_overlap ch \<le> dc_chunk_size ch"
    and "Suc (Suc k) < length (walked_windows ch buf)"
  shows "snd (walked_windows ch buf ! k) - fst (walked_windows ch buf ! k) = dc_chunk_size ch"
proof -
  define stride where "stride = dc_chunk_size ch - dc_chunk_overlap ch"
  define a where "a = int k * stride"
  have s: "int (Suc (Suc k)) * stride = a + 2 * stride" by (simp add: a_def algebra_simps)
  have k: "k < length (walked_windows ch buf)" using assms(4) by simp
  have w: "walked_windows ch buf ! k = (a, min (a + dc_chunk_size ch) (int (length buf)))"
    using walked_windows_nth [OF assms(2) k] by (simp add: a_def stride_def)
  have "a + 2 * stride < int (length buf)"
    using assms(2,4) s by (simp only: walked_windows_length stride_def)
  thus ?thesis using assms(3) unfolding w stride_def by (simp add: min_def)
qed

text \<open>
  C6 (amended). For every document and every chunk size and overlap with
  \<open>0 \<le> overlap < chunk size\<close>, sliding-window chunking returns one chunk for each walked
  window \<open>[i, min (i + chunk size) (length buffer))\<close> that is not all white space, in order,
  its content being the window's text trimmed; a window that is all white space gives no
  chunk. The walked windows cover the whole combined buffer, and every character of the
  buffer that is not white space lies in the window of some chunk. Two consecutive walked
  windows overlap by exactly \<open>overlap\<close> characters whenever the earlier one is not cut
  short by the end of the buffer; when \<open>2 * overlap \<le> chunk size\<close> that is every pair of
  consecutive windows that does not involve the final window.
\<close>

theorem sliding_window_coverage_and_overlap:
  assumes "0 \<le> dc_chunk_overlap ch" and "dc_chunk_overlap ch < dc_chunk_size ch"
    and "buf = combined_text_of document"
  shows "(\<exists>cs. chunk_document ch document = Inr cs \<and>
            map content cs =
              map (\<lambda>w. strip (py_slice buf (fst w) (snd w))) (emitted_windows ch buf)) \<and>
         emitted_windows ch buf =
           filter (\<lambda>w. strip (py_slice buf (fst w) (snd w)) \<noteq> []) (walked_windows ch buf) \<and>
         (\<forall>p. 0 \<le> p \<and> p < int (length buf) \<longrightarrow> covered (walked_windows ch buf) p) \<and>
         (\<forall>p. 0 \<le> p \<and> p < int (length buf) \<and> \<not> py_isspace (buf ! nat p) \<longrightarrow>
              covered (emitted_windows ch buf) p) \<and>
         (\<forall>k. Suc k < length (walked_windows ch buf) \<and>
              snd (walked_windows ch buf ! k) - fst (walked_windows ch buf ! k) = dc_chunk_size ch \<longrightarrow>
              range_overlap (walked_windows ch buf ! k) (walked_windows ch buf ! Suc k)
                = dc_chunk_overlap ch) \<and>
         (2 * dc_chunk_overlap ch \<le> dc_chunk_size ch \<longrightarrow>
            (\<forall>k. Suc (Suc k) < length (walked_windows ch buf) \<longrightarrow>
                 range_overlap (walked_windows ch buf ! k) (walked_windows ch buf ! Suc k)
                   = dc_chunk_overlap ch))"
proof -
  have 1: "\<exists>cs. chunk_document ch document = Inr cs \<and>
            map content cs =
              map (\<lambda>w. strip (py_slice buf (fst w) (snd w))) (emitted_windows ch buf)"
    unfolding assms(3) using assms(2) by (rule chunk_document_contents)
  have 2: "emitted_windows ch buf =
           filter (\<lambda>w. strip (py_slice buf (fst w) (snd w)) \<noteq> []) (walked_windows ch buf)"
    by (rule emitted_windows_filter)
  have 3: "\<forall>p. 0 \<le> p \<and> p < int (length buf) \<longrightarrow> covered (walked_windows ch buf) p"
    using walked_windows_cover [OF assms(1,2)] covered_nth by blast
  have 4: "\<forall>p. 0 \<le> p \<and> p < int (length buf) \<and> \<not> py_isspace (buf ! nat p) \<longrightarrow>
              covered (emitted_windows ch buf) p"
    using emitted_windows_cover [OF assms(1,2)] by blast
  have 5: "\<forall>k. Suc k < length (walked_windows ch buf) \<and>
              snd (walked_windows ch buf ! k) - fst (walked_windows ch buf ! k) = dc_chunk_size ch \<longrightarrow>
              range_overlap (walked_windows ch buf ! k) (walked_windows ch buf ! Suc k)
                = dc_chunk_overlap ch"
    using walked_overlap_full [OF assms(1,2)] by blast
  have 6: "2 * dc_chunk_overlap ch \<le> dc_chunk_size ch \<longrightarrow>
            (\<forall>k. Suc (Suc k) < length (walked_windows ch buf) \<longrightarrow>
                 range_overlap (walked_windows ch buf ! k) (walked_windows ch buf ! Suc k)
                   = dc_chunk_overlap ch)"
  proof (intro impI allI)
    fix k
    assume h: "2 * dc_chunk_overlap ch \<le> dc_chunk_size ch"
      and k: "Suc (Suc k) < length (walked_windows ch buf)"
    have "snd (walked_windows ch buf ! k) - fst (walked_windows ch buf ! k) = dc_chunk_size ch"
      using assms(1,2) h k by (rule walked_full_before_last)
    moreover have "Suc k < length (walked_windows ch buf)" using k by simp
    ultimately show "range_overlap (walked_windows ch buf ! k) (walked_windows ch buf ! Suc k)
                   = dc_chunk_overlap ch"
      using walked_overlap_full [OF assms(1,2)] by blast
  qed
  from 1 2 3 4 5 6 show ?thesis by (intro conjI)
qed

section \<open>Sliding-window coverage and overlap at concrete documents\<close>

text \<open>
  The combined buffer of a one-page document whose text is \<open>ab\<close>, eight spaces and
  \<open>cdefg\<close>, its windows for chunk size 4 and overlap 1, and its chunks.
\<close>

lemma gap_document_buffer: "combined_text_of (sample_document (asc ''ab        cdefg'')) =
   [10, 91, 54168, 51060, 51648, 32, 49, 93, 10, 97, 98, 32, 32, 32, 32, 32, 32, 32, 32,
    99, 100, 101, 102, 103]"
  by (simp add: combined_text_of_def sample_document_def combine_pages_def page_block_def
      str_int_def digits_of.simps asc_def strip_def lstrip_def rstrip_def py_isspace_def)

lemma gap_document_walked: "walked_windows \<lparr> dc_chunk_size = 4, dc_chunk_overlap = 1 \<rparr>
     (combined_text_of (sample_document (asc ''ab        cdefg'')))
   = [(0, 4), (3, 7), (6, 10), (9, 13), (12, 16), (15, 19), (18, 22), (21, 24)]"
  by (simp add: gap_document_buffer walked_windows_def py_range0_def window_of_def upt_conv_Cons)

lemma gap_document_emitted: "emitted_windows \<lparr> dc_chunk_size = 4, dc_chunk_overlap = 1 \<rparr>
     (combined_text_of (sample_document (asc ''ab        cdefg'')))
   = [(0, 4), (3, 7), (6, 10), (9, 13), (18, 22), (21, 24)]"
  by (simp add: gap_document_buffer emitted_windows_def py_range0_def window_of_def upt_conv_Cons
      py_slice_def slice_bound_def strip_def lstrip_def rstrip_def py_isspace_def)

lemma gap_document_chunks: "map_sum id (map content)
     (chunk_document \<lparr> dc_chunk_size = 4, dc_chunk_overlap = 1 \<rparr>
        (sample_document (asc ''ab        cdefg'')))
   = Inr [[91, 54168, 51060], [51060, 51648, 32, 49], [49, 93, 10, 97], [97, 98],
          [99, 100, 101], [101, 102, 103]]"
  by (simp add: chunk_document_def chunk_pages_def sample_document_def combine_pages_def
        page_block_def str_int_def digits_of.simps asc_def py_range0_def py_slice_def
        slice_bound_def strip_def lstrip_def rstrip_def py_isspace_def get_pages_in_range_def
        detect_section_def section_patterns_def re_search_def
        Let_def upt_conv_Cons)


text \<open>
  The buffer of a one-page document with text \<open>ab\<close>, its windows for chunk size 6 and
  overlap 4, and its chunks.
\<close>

lemma short_document_buffer: "combined_text_of (sample_document (asc ''ab'')) =
   [10, 91, 54168, 51060, 51648, 32, 49, 93, 10, 97, 98]"
  by (simp add: combined_text_of_def sample_document_def combine_pages_def page_block_def
      str_int_def digits_of.simps asc_def strip_def lstrip_def rstrip_def py_isspace_def)

lemma short_document_emitted: "emitted_windows \<lparr> dc_chunk_size = 6, dc_chunk_overlap = 4 \<rparr>
     (combined_text_of (sample_document (asc ''ab'')))
   = [(0, 6), (2, 8), (4, 10), (6, 11), (8, 11), (10, 11)]"
  by (simp add: short_document_buffer emitted_windows_def py_range0_def window_of_def
      upt_conv_Cons py_slice_def slice_bound_def strip_def lstrip_def rstrip_def py_isspace_def)

lemma short_document_chunks: "map_sum id (map content)
     (chunk_document \<lparr> dc_chunk_size = 6, dc_chunk_overlap = 4 \<rparr> (sample_document (asc ''ab'')))
   = Inr [[91, 54168, 51060, 51648], [54168, 51060, 51648, 32, 49, 93],
          [51648, 32, 49, 93, 10, 97], [49, 93, 10, 97, 98], [97, 98], [98]]"
  by (simp add: chunk_document_def chunk_pages_def sample_document_def combine_pages_def
        page_block_def str_int_def digits_of.simps asc_def py_range0_def py_slice_def
        slice_bound_def strip_def lstrip_def rstrip_def py_isspace_def get_pages_in_range_def
        detect_section_def section_patterns_def re_search_def
        Let_def upt_conv_Cons)

theorem sliding_window_coverage_and_overlap_witness:
  "(0::int) \<le> dc_chunk_overlap \<lparr> dc_chunk_size = 4, dc_chunk_overlap = 1 \<rparr> \<and>
   dc_chunk_overlap \<lparr> dc_chunk_size = 4, dc_chunk_overlap = 1 \<rparr>
     < dc_chunk_size \<lparr> dc_chunk_size = 4, dc_chunk_overlap = 1 \<rparr> \<and>
   walked_windows \<lparr> dc_chunk_size = 4, dc_chunk_overlap = 1 \<rparr>
       (combined_text_of (sample_document (asc ''ab        cdefg'')))
     = [(0, 4), (3, 7), (6, 10), (9, 13), (12, 16), (15, 19), (18, 22), (21, 24)] \<and>
   covered (walked_windows \<lparr> dc_chunk_size = 4, dc_chunk_overlap = 1 \<rparr>
              (combined_text_of (sample_document (asc ''ab        cdefg'')))) 14 \<and>
   covered (emitted_windows \<lparr> dc_chunk_size = 4, dc_chunk_overlap = 1 \<rparr>
              (combined_text_of (sample_document (asc ''ab        cdefg'')))) 19 \<and>
   range_overlap (3, 7) (6, 10) = 1"
proof -
  let ?ch = "\<lparr> dc_chunk_size = 4, dc_chunk_overlap = 1 \<rparr>"
  let ?buf = "combined_text_of (sample_document (asc ''ab        cdefg''))"
  let ?ww = "walked_windows ?ch ?buf"
  have h1: "0 \<le> dc_chunk_overlap ?ch" by simp
  have h2: "dc_chunk_overlap ?ch < dc_chunk_size ?ch" by simp
  have w: "?ww = [(0, 4), (3, 7), (6, 10), (9, 13), (12, 16), (15, 19), (18, 22), (21, 24)]"
    by (rule gap_document_walked)
  note T = sliding_window_coverage_and_overlap [OF h1 h2 refl, of "sample_document (asc ''ab        cdefg'')"]
  from T have c: "\<forall>p. 0 \<le> p \<and> p < int (length ?buf) \<longrightarrow> covered ?ww p" by (elim conjE)
  from T have e: "\<forall>p. 0 \<le> p \<and> p < int (length ?buf) \<and> \<not> py_isspace (?buf ! nat p) \<longrightarrow>
                      covered (emitted_windows ?ch ?buf) p" by (elim conjE)
  from T have o: "2 * dc_chunk_overlap ?ch \<le> dc_chunk_size ?ch \<longrightarrow>
            (\<forall>k. Suc (Suc k) < length ?ww \<longrightarrow>
                 range_overlap (?ww ! k) (?ww ! Suc k) = dc_chunk_overlap ?ch)" by (elim conjE)
  have "(0::int) \<le> 14 \<and> 14 < int (length ?buf)" by (simp add: gap_document_buffer)
  with c have c14: "covered ?ww 14" by blast
  have "(0::int) \<le> 19 \<and> 19 < int (length ?buf) \<and> \<not> py_isspace (?buf ! nat 19)"
    by (simp add: gap_document_buffer py_isspace_def)
  with e have e19: "covered (emitted_windows ?ch ?buf) 19" by blast
  have "2 * dc_chunk_overlap ?ch \<le> dc_chunk_size ?ch" by simp
  moreover have "Suc (Suc 1) < length ?ww" by (simp add: w)
  ultimately have "range_overlap (?ww ! 1) (?ww ! Suc 1) = dc_chunk_overlap ?ch"
    using o by blast
  hence r: "range_overlap (3, 7) (6, 10) = 1" by (simp add: w)
  from h1 h2 w c14 e19 r show ?thesis by (intro conjI)
qed

text \<open>
  With chunk size 4 and overlap 1 the windows \<open>[12, 16)\<close> and \<open>[15, 19)\<close> of the first
  document are all white space and give no chunk: offset 14 of the 24-character buffer
  lies in no chunk's window, and the consecutive chunks of the windows \<open>[9, 13)\<close> and
  \<open>[18, 22)\<close>, neither of them the final chunk, share no character. With chunk size 6 and
  overlap 4 the chunks of the windows \<open>[6, 11)\<close> and \<open>[8, 11)\<close> of the second document,
  both cut short by the end of the 11-character buffer and neither of them the final
  chunk, share 3 characters.
\<close>

theorem blank_and_clipped_windows_counterexample:
  "dc_chunk_overlap \<lparr> dc_chunk_size = 4, dc_chunk_overlap = 1 \<rparr>
     < dc_chunk_size \<lparr> dc_chunk_size = 4, dc_chunk_overlap = 1 \<rparr> \<and>
   map_sum id (map content)
     (chunk_document \<lparr> dc_chunk_size = 4, dc_chunk_overlap = 1 \<rparr>
        (sample_document (asc ''ab        cdefg'')))
     = Inr [[91, 54168, 51060], [51060, 51648, 32, 49], [49, 93, 10, 97], [97, 98],
            [99, 100, 101], [101, 102, 103]] \<and>
   emitted_windows \<lparr> dc_chunk_size = 4, dc_chunk_overlap = 1 \<rparr>
       (combined_text_of (sample_document (asc ''ab        cdefg'')))
     = [(0, 4), (3, 7), (6, 10), (9, 13), (18, 22), (21, 24)] \<and>
   length (combined_text_of (sample_document (asc ''ab        cdefg''))) = 24 \<and>
   \<not> covered (emitted_windows \<lparr> dc_chunk_size = 4, dc_chunk_overlap = 1 \<rparr>
                (combined_text_of (sample_document (asc ''ab        cdefg'')))) 14 \<and>
   range_overlap (9, 13) (18, 22) = 0 \<and>
   dc_chunk_overlap \<lparr> dc_chunk_size = 6, dc_chunk_overlap = 4 \<rparr>
     < dc_chunk_size \<lparr> dc_chunk_size = 6, dc_chunk_overlap = 4 \<rparr> \<and>
   map_sum id (map content)
     (chunk_document \<lparr> dc_chunk_size = 6, dc_chunk_overlap = 4 \<rparr> (sample_document (asc ''ab'')))
     = Inr [[91, 54168, 51060, 51648], [54168, 51060, 51648, 32, 49, 93],
            [51648, 32, 49, 93, 10, 97], [49, 93, 10, 97, 98], [97, 98], [98]] \<and>
   emitted_windows \<lparr> dc_chunk_size = 6, dc_chunk_overlap = 4 \<rparr>
       (combined_text_of (sample_document (asc ''ab'')))
     = [(0, 6), (2, 8), (4, 10), (6, 11), (8, 11), (10, 11)] \<and>
   range_overlap (6, 11) (8, 11) = 3"
proof -
  have "\<not> covered (emitted_windows \<lparr> dc_chunk_size = 4, dc_chunk_overlap = 1 \<rparr>
                (combined_text_of (sample_document (asc ''ab        cdefg'')))) 14"
    unfolding gap_document_emitted by (simp add: covered_def)
  moreover have "length (combined_text_of (sample_document (asc ''ab        cdefg''))) = 24"
    by (simp add: gap_document_buffer)
  moreover have "range_overlap (9, 13) (18, 22) = 0" "range_overlap (6, 11) (8, 11) = 3"
    by (simp_all add: range_overlap_def)
  ultimately show ?thesis
    using gap_document_chunks gap_document_emitted short_document_chunks short_document_emitted
    by simp
qed

section \<open>Empty retrieval\<close>

lemma search_all_invoke_llm [simp]:
  "search_all (ag\<lparr> invoke_llm := llm \<rparr>) tid k qs = search_all ag tid k qs"
  by (induction qs) (simp_all split: sum.splits)

lemma effective_k_invoke_llm [simp]:
  "effective_k (ag\<lparr> invoke_llm := llm \<rparr>) k = effective_k ag k"
  by (simp add: effective_k_def split: option.splits)

lemma retrieve_context_invoke_llm [simp]:
  "retrieve_context (ag\<lparr> invoke_llm := llm \<rparr>) tid qs k = retrieve_context ag tid qs k"
  by (simp add: retrieve_context_def selected_results_def Let_def)

lemma empty_pool_empty_context:
  "search_all ag tid (effective_k ag k) qs = Inr [] \<Longrightarrow> retrieve_context ag tid qs k = Inr []"
  by (simp add: retrieve_context_def selected_results_def py_slice_to_def sort_by_score_def)

text \<open>
  C7. Whenever retrieval yields no chunk for any of a criterion's queries, the assembled
  context is empty and the criterion evaluation is the result with score 0, grade
  "search failed" and a false pass flag, whatever the judgment service would do (it is not
  invoked); and in every final summary of a run in which this criterion is one of the
  three, the criterion appears among the weak points and among the recommendations.
\<close>

theorem empty_retrieval_short_circuits:
  assumes "search_all ag tid (retrieval_k (config ag)) (search_queries ag) = Inr []"
  shows "retrieve_context ag tid (search_queries ag) None = Inr [] \<and>
         (\<forall>llm. evaluate (ag\<lparr> invoke_llm := llm \<rparr>) tid = Inr (search_failed ag)) \<and>
         score (search_failed ag) = PyInt 0 \<and>
         grade (search_failed ag) = [44160, 49353, 49892, 54056] \<and>
         \<not> pass_status (search_failed ag) \<and>
         (\<forall>r res.
            run_full_evaluation r tid = Inr res \<and>
            (novelty_agent r tid = evaluate ag tid \<or> progress_agent r tid = evaluate ag tid \<or>
             field_agent r tid = evaluate ag tid) \<longrightarrow>
            criterion_name ag @ asc '': '' @ [44160, 49353, 49892, 54056]
              \<in> set (weak_points (summary res)) \<and>
            criterion_name ag @ needs_work @
              [44288, 47144, 32, 47928, 49436, 47484, 32, 52286, 51012, 32, 49688, 32,
               50630, 49845, 45768, 45796, 46]
              \<in> set (recommendations (summary res)))"
proof -
  have ctx: "retrieve_context ag tid (search_queries ag) None = Inr []"
    using assms by (intro empty_pool_empty_context) (simp add: effective_k_def)
  have ev: "evaluate (ag\<lparr> invoke_llm := llm \<rparr>) tid = Inr (search_failed ag)" for llm
    using ctx by (simp add: evaluate_def search_failed_def)
  have ev0: "evaluate ag tid = Inr (search_failed ag)"
    using ev [of "invoke_llm ag"] by simp
  have sum: "criterion_name ag @ asc '': '' @ [44160, 49353, 49892, 54056]
              \<in> set (weak_points (summary res)) \<and>
            criterion_name ag @ needs_work @
              [44288, 47144, 32, 47928, 49436, 47484, 32, 52286, 51012, 32, 49688, 32,
               50630, 49845, 45768, 45796, 46]
              \<in> set (recommendations (summary res))"
    if run: "run_full_evaluation r tid = Inr res"
      and pos: "novelty_agent r tid = evaluate ag tid \<or> progress_agent r tid = evaluate ag tid \<or>
             field_agent r tid = evaluate ag tid" for r res
  proof -
    from run obtain n p f s where
      a: "novelty_agent r tid = Inr n" "progress_agent r tid = Inr p" "field_agent r tid = Inr f"
      and g: "generate_summary (format_json r) (n, p) f (overall_score res) (overall_pass res) = Inr s"
      and s: "summary res = s"
      by (rule run_full_evaluation_Inr)
    from pos a ev0 have "search_failed ag \<in> {n, p, f}" by auto
    from generate_summary_points [OF g this]
    have "point_line (search_failed ag) \<in> set (weak_points s)"
      and "criterion (search_failed ag) @ needs_work @
             take 100 [44288, 47144, 32, 47928, 49436, 47484, 32, 52286, 51012, 32, 49688, 32,
               50630, 49845, 45768, 45796, 46] \<in> set (recommendations s)"
      by (simp_all add: search_failed_def num_value_def)
    then show ?thesis using s by (simp add: point_line_def search_failed_def)
  qed
  have g: "score (search_failed ag) = PyInt 0 \<and>
         grade (search_failed ag) = [44160, 49353, 49892, 54056] \<and>
         \<not> pass_status (search_failed ag)"
    by (simp add: search_failed_def)
  from ctx ev g sum show ?thesis by blast
qed

theorem empty_retrieval_short_circuits_witness:
  "search_all (sample_agent [] (Inl (ServiceError (asc ''down''))))
     (asc ''T1'') (retrieval_k (config (sample_agent [] (Inl (ServiceError (asc ''down''))))))
     (search_queries (sample_agent [] (Inl (ServiceError (asc ''down''))))) = Inr [] \<and>
   evaluate (sample_agent [] (Inl (ServiceError (asc ''down'')))) (asc ''T1'')
     = Inr (search_failed (sample_agent [] (Inl (ServiceError (asc ''down''))))) \<and>
   (\<exists>res. run_full_evaluation
            (runner_of (sample_agent [] (Inl (ServiceError (asc ''down''))))
                       (sample_agent [sample_hit 0 1] (Inr (asc ''{}'')))
                       (sample_agent [sample_hit 0 1] (Inr (asc ''{}'')))
                       sample_format) (asc ''T1'') = Inr res \<and>
          [49888, 44508, 49457] @ asc '': '' @ [44160, 49353, 49892, 54056]
            \<in> set (weak_points (summary res)))"
proof -
  let ?ag = "sample_agent [] (Inl (ServiceError (asc ''down'')))"
  let ?ok = "sample_agent [sample_hit 0 1] (Inr (asc ''{}''))"
  let ?r = "runner_of ?ag ?ok ?ok sample_format"
  have h: "search_all ?ag (asc ''T1'') (retrieval_k (config ?ag)) (search_queries ?ag) = Inr []"
    by (simp add: sample_agent_def)
  note t = empty_retrieval_short_circuits [OF h]
  from t have "evaluate (?ag\<lparr> invoke_llm := invoke_llm ?ag \<rparr>) (asc ''T1'') = Inr (search_failed ?ag)"
    by blast
  then have e: "evaluate ?ag (asc ''T1'') = Inr (search_failed ?ag)" by simp
  have o: "\<exists>x. evaluate ?ok (asc ''T1'') = Inr x \<and>
             (x = search_failed ?ok \<or> (\<exists>resp. x = parse_evaluation_response ?ok resp))"
    by (intro evaluate_total) (auto simp: sample_agent_def split: if_splits)
  then obtain x where x: "evaluate ?ok (asc ''T1'') = Inr x"
    "x = search_failed ?ok \<or> (\<exists>resp. x = parse_evaluation_response ?ok resp)" by blast
  have js: "\<forall>s data v. json_loads ?ok s = Some (JObj data) \<longrightarrow>
              map_of data key = Some v \<longrightarrow> P v" for key P
    by (auto simp: sample_agent_def split: if_splits)
  have sc: "\<forall>s data v. json_loads ?ok s = Some (JObj data) \<longrightarrow>
              map_of data (asc ''score'') = Some (JNum v) \<longrightarrow> P v" for P
    by (auto simp: sample_agent_def split: if_splits)
  have xs: "sliceable (comments x)"
    using js x(2) by (rule evaluate_result_sliceable)
  have x1: "to_float (score x) \<noteq> Inl PyOverflowError"
    using sc small_ints_convert(1-3) x(2)
    by (rule evaluate_result_score [where P = "\<lambda>x. to_float x \<noteq> Inl PyOverflowError"])
  have x2: "to_float (times_int (score x) 10) \<noteq> Inl PyOverflowError"
    using sc small_ints_convert(4-6) x(2)
    by (rule evaluate_result_score
              [where P = "\<lambda>x. to_float (times_int x 10) \<noteq> Inl PyOverflowError"])
  have sf: "sliceable (comments (search_failed ?ag))" by (simp add: search_failed_def sliceable_def)
  have s0: "to_float (score (search_failed ?ag)) \<noteq> Inl PyOverflowError"
    by (simp add: search_failed_def small_ints_convert)
  have "\<exists>res. run_full_evaluation ?r (asc ''T1'') = Inr res"
    using run_full_evaluation_total [of ?r "asc ''T1''" "search_failed ?ag" x x] e x(1) xs sf
      s0 x1 x2
    by (auto simp: runner_of_def)
  then obtain res where res: "run_full_evaluation ?r (asc ''T1'') = Inr res" by blast
  have "novelty_agent ?r (asc ''T1'') = evaluate ?ag (asc ''T1'')" by (simp add: runner_of_def)
  with t res have "criterion_name ?ag @ asc '': '' @ [44160, 49353, 49892, 54056]
            \<in> set (weak_points (summary res))" by blast
  then have "[49888, 44508, 49457] @ asc '': '' @ [44160, 49353, 49892, 54056]
            \<in> set (weak_points (summary res))" by (simp add: sample_agent_def)
  with h e res show ?thesis by blast
qed

section \<open>Batch embedding\<close>

lemma create_embeddings_batch_map:
  "batch_size \<noteq> 0 \<Longrightarrow>
   create_embeddings_batch svc cs batch_size =
     map (\<lambda>c. case create_embedding svc (content c) of
                 Inr v \<Rightarrow> (to_dict c)\<lparr> embedding := Some v \<rparr>
               | Inl e \<Rightarrow> failed_record c e) cs"
  by (induction cs) (auto split: sum.splits)

text \<open>
  With a batch size other than zero (the default is 10) the batch embedding returns one
  record per chunk, in input order, carrying the chunk's fields; when embedding a chunk
  fails its record has the empty vector and the error as marker, and the remaining chunks
  are still processed.
\<close>

lemma create_embeddings_batch_nonzero:
  assumes "batch_size \<noteq> 0"
  shows "length (create_embeddings_batch svc chunks batch_size) = length chunks \<and>
         (\<forall>i < length chunks.
            d_tech_id (create_embeddings_batch svc chunks batch_size ! i) = tech_id (chunks ! i) \<and>
            d_chunk_index (create_embeddings_batch svc chunks batch_size ! i)
              = int (chunk_index (chunks ! i)) \<and>
            d_content (create_embeddings_batch svc chunks batch_size ! i)
              = Some (content (chunks ! i)) \<and>
            (case create_embedding svc (content (chunks ! i)) of
               Inr v \<Rightarrow>
                 embedding (create_embeddings_batch svc chunks batch_size ! i) = Some v \<and>
                 embedding_error (create_embeddings_batch svc chunks batch_size ! i) = None
             | Inl e \<Rightarrow>
                 embedding (create_embeddings_batch svc chunks batch_size ! i) = Some [] \<and>
                 embedding_error (create_embeddings_batch svc chunks batch_size ! i) = Some e))"
  using assms
  by (auto simp: create_embeddings_batch_map failed_record_def to_dict_def split: sum.splits)

lemma create_embeddings_batch_nonzero_example:
  "(10::int) \<noteq> 0 \<and>
   length (create_embeddings_batch sample_service
             [sample_chunk 0 (asc ''ok''), sample_chunk 1 (asc ''bad''), sample_chunk 2 (asc ''fine'')]
             10) = 3 \<and>
   map embedding (create_embeddings_batch sample_service
             [sample_chunk 0 (asc ''ok''), sample_chunk 1 (asc ''bad''), sample_chunk 2 (asc ''fine'')]
             10) = [Some [1, 2], Some [], Some [1, 2]] \<and>
   map embedding_error (create_embeddings_batch sample_service
             [sample_chunk 0 (asc ''ok''), sample_chunk 1 (asc ''bad''), sample_chunk 2 (asc ''fine'')]
             10) = [None, Some (ServiceError (asc ''down'')), None]"
  using create_embeddings_batch_nonzero
    [of 10 sample_service
        "[sample_chunk 0 (asc ''ok''), sample_chunk 1 (asc ''bad''), sample_chunk 2 (asc ''fine'')]"]
  by (simp add: create_embedding_def sample_service_def sample_chunk_def failed_record_def
      to_dict_def asc_def)

text \<open>
  C8. The claim is that the batch embedding returns exactly one record per input chunk.
  With batch size 0 it does not: the chunk \<open>ok\<close> is embedded and its record appended,
  then the progress test \<open>(i + 1) % batch_size\<close> raises inside the same \<open>try\<close> block and the
  handler for a failed embedding appends a second record for the chunk, with the empty
  vector and the division error as marker. One chunk gives two records.
\<close>

theorem embed_batch_zero_batch_size_two_records:
  "create_embedding sample_service (content (sample_chunk 0 (asc ''ok''))) = Inr [1, 2] \<and>
   create_embeddings_batch sample_service [sample_chunk 0 (asc ''ok'')] 0 =
     [(to_dict (sample_chunk 0 (asc ''ok'')))\<lparr> embedding := Some [1, 2] \<rparr>,
      failed_record (sample_chunk 0 (asc ''ok'')) PyZeroDivisionError] \<and>
   length (create_embeddings_batch sample_service [sample_chunk 0 (asc ''ok'')] 0) = 2"
  by (simp add: create_embedding_def sample_service_def sample_chunk_def asc_def)

section \<open>The chunks a chunker emits\<close>

subsection \<open>Trimming\<close>









subsection \<open>Pages of a window\<close>




subsection \<open>The chunks of the two walks\<close>








section \<open>Parsing the judgment response\<close>

text \<open>
  C10. If the judgment response contains extractable JSON that decodes to an object
  without a \<open>score\<close> field, \<open>parse_evaluation_response\<close> gives the score 3, the
  grade for 3 (fair) and a true pass flag: the criterion passes by default.
\<close>

theorem parse_without_score_passes:
  assumes "extract_json response = Some json_str"
    and "json_loads ag json_str = Some (JObj data)"
    and "map_of data (asc ''score'') = None"
  shows "score (parse_evaluation_response ag response) = PyInt 3 \<and>
         grade (parse_evaluation_response ag response) = [48372, 53685] \<and>
         pass_status (parse_evaluation_response ag response)"
  using assms
  by (simp add: parse_evaluation_response_def json_number_def GRADE_MAP_def num_round_def
      num_value_def)

theorem parse_without_score_passes_witness:
  "extract_json (asc ''{}'') = Some (asc ''{}'') \<and>
   json_loads (sample_agent [] (Inr [])) (asc ''{}'') = Some (JObj []) \<and>
   map_of [] (asc ''score'') = (None :: json option) \<and>
   score (parse_evaluation_response (sample_agent [] (Inr [])) (asc ''{}'')) = PyInt 3 \<and>
   pass_status (parse_evaluation_response (sample_agent [] (Inr [])) (asc ''{}''))"
proof -
  have a: "extract_json (asc ''{}'') = Some (asc ''{}'')"
    by (simp add: extract_json_def fenced_json_def braced_json_def asc_def)
  have b: "json_loads (sample_agent [] (Inr [])) (asc ''{}'') = Some (JObj [])"
    by (simp add: sample_agent_def)
  have c: "map_of [] (asc ''score'') = (None :: json option)" by simp
  from parse_without_score_passes [OF a b c] a b c show ?thesis by blast
qed


end
